theory Spec2Isabelle
  imports
    Main
    "HOL-Library.AList"
    "HOL-Library.Char_ord"
    "HOL-Library.List_Lexorder"
    "HOL-Library.Product_Lexorder"
begin

section \<open>JavaScript values and objects\<close>

text \<open>
  The server is TypeScript; its types are erased at run time, so the gateway
  (\<^verbatim>\<open>server/firestore-storage.ts\<close>) and the routes handle plain JavaScript values.
  A number \<open>JNum n\<close> is the double whose value is the integer \<open>n\<close> (identifiers,
  counters, whole prices); fractional doubles are outside this embedding.
  \<open>JDate t\<close> is a JavaScript \<^verbatim>\<open>Date\<close> and \<open>JTimestamp t\<close> a Firestore
  \<^verbatim>\<open>Timestamp\<close>, both at \<open>t\<close> milliseconds since the epoch (the program builds
  every Timestamp with \<^verbatim>\<open>Timestamp.fromDate\<close>). \<open>JDateOf v\<close> stands for the Date
  that \<^verbatim>\<open>new Date(v)\<close> yields when \<open>v\<close> is a string, an array or an object:
  the engine's date parser is not interpreted.
  Strings are byte lists (UTF-8).
\<close>

datatype jsval =
    JUndefined
  | JNull
  | JBool bool
  | JNum int
  | JStr string
  | JDate int
  | JInvalidDate
  | JDateOf jsval
  | JTimestamp int
  | JArr "jsval list"
  | JObj "(string \<times> jsval) list"

type_synonym jsobject = "(string \<times> jsval) list"

text \<open>Property read \<^verbatim>\<open>o.k\<close>: a missing property reads as \<^verbatim>\<open>undefined\<close>.\<close>

definition obj_get :: "jsobject \<Rightarrow> string \<Rightarrow> jsval" where
  "obj_get ob k = (case map_of ob k of None \<Rightarrow> JUndefined | Some v \<Rightarrow> v)"

text \<open>Truthiness, \<^verbatim>\<open>a || b\<close> and \<^verbatim>\<open>a ?? b\<close>.\<close>

fun truthy :: "jsval \<Rightarrow> bool" where
  "truthy JUndefined = False"
| "truthy JNull = False"
| "truthy (JBool b) = b"
| "truthy (JNum n) = (n \<noteq> 0)"
| "truthy (JStr s) = (s \<noteq> [])"
| "truthy _ = True"

definition js_or :: "jsval \<Rightarrow> jsval \<Rightarrow> jsval" where
  "js_or a b = (if truthy a then a else b)"

definition nullish :: "jsval \<Rightarrow> jsval \<Rightarrow> jsval" where
  "nullish a b = (if a = JUndefined \<or> a = JNull then b else a)"

text \<open>
  \<^verbatim>\<open>Object.keys(o).forEach(key => o[key] === undefined && delete o[key])\<close>,
  the "Remove undefined values" loop of \<^verbatim>\<open>updateMenuItem\<close> and \<^verbatim>\<open>updateOrder\<close>.
\<close>

definition strip_undefined :: "jsobject \<Rightarrow> jsobject" where
  "strip_undefined ob =
     fold (\<lambda>key acc. if obj_get acc key = JUndefined then AList.delete key acc else acc)
          (map fst ob) ob"

text \<open>\<^verbatim>\<open>Number.prototype.toString\<close> on an integer-valued number: its decimal numeral.\<close>

definition digit_char :: "nat \<Rightarrow> char" where
  "digit_char d = ''0123456789'' ! d"

function nat_to_dec :: "nat \<Rightarrow> string" where
  "nat_to_dec n = (if n < 10 then [digit_char n] else nat_to_dec (n div 10) @ [digit_char (n mod 10)])"
  by pat_completeness auto
termination
  by (relation "measure id") auto

declare nat_to_dec.simps [simp del]

definition number_toString :: "int \<Rightarrow> string" where
  "number_toString n = (if n < 0 then CHR ''-'' # nat_to_dec (nat (- n)) else nat_to_dec (nat n))"

text \<open>
  \<^verbatim>\<open>new Date(v)\<close>, and the mapper's
  \<^verbatim>\<open>data.x?.toDate ? data.x.toDate() : new Date(data.x)\<close>. Among the values a
  document can hold only a Timestamp has a \<^verbatim>\<open>toDate\<close> method; a stored map with a
  truthy \<^verbatim>\<open>toDate\<close> entry passes the test and the call then throws a TypeError.
\<close>

datatype error = BackendFailure | TypeError

fun new_Date :: "jsval \<Rightarrow> jsval" where
  "new_Date JUndefined = JInvalidDate"
| "new_Date JNull = JDate 0"
| "new_Date (JBool b) = JDate (if b then 1 else 0)"
| "new_Date (JNum n) = (if \<bar>n\<bar> \<le> 8640000000000000 then JDate n else JInvalidDate)"
| "new_Date (JDate t) = JDate t"
| "new_Date JInvalidDate = JInvalidDate"
| "new_Date v = JDateOf v"

fun toDate_or_new :: "jsval \<Rightarrow> error + jsval" where
  "toDate_or_new (JTimestamp t) = Inr (JDate t)"
| "toDate_or_new (JObj kvs) =
     (if truthy (obj_get kvs ''toDate'') then Inl TypeError else Inr (new_Date (JObj kvs)))"
| "toDate_or_new v = Inr (new_Date v)"

section \<open>The document store\<close>

text \<open>
  Firestore is an external service. It is modelled by its documented behaviour: named
  collections of documents keyed by a string identifier, a document being an object.
  Any call to it may throw (the store is unreachable, or rejects the operation, or a
  query lacks its index); \<open>faults\<close> is the schedule of these outcomes, one entry
  consumed per call, \<open>True\<close> for a call that throws. An exhausted schedule means
  that every later call succeeds.
\<close>

type_synonym collection = "(string \<times> jsobject) list"

record firestore =
  colls :: "string \<Rightarrow> collection"
  faults :: "bool list"

type_synonym 'a io = "firestore \<Rightarrow> (error + 'a) \<times> firestore"

definition ret :: "'a \<Rightarrow> 'a io" where
  "ret a = (\<lambda>db. (Inr a, db))"

definition bind :: "'a io \<Rightarrow> ('a \<Rightarrow> 'b io) \<Rightarrow> 'b io" where
  "bind m f = (\<lambda>db. case m db of (Inl e, db') \<Rightarrow> (Inl e, db') | (Inr a, db') \<Rightarrow> f a db')"

definition lift :: "error + 'a \<Rightarrow> 'a io" where
  "lift r = (\<lambda>db. (r, db))"

text \<open>\<^verbatim>\<open>try { body } catch (error) { handler }\<close>\<close>

definition try_catch :: "'a io \<Rightarrow> (error \<Rightarrow> 'a io) \<Rightarrow> 'a io" where
  "try_catch body handler =
     (\<lambda>db. case body db of (Inl e, db') \<Rightarrow> handler e db' | (Inr a, db') \<Rightarrow> (Inr a, db'))"

text \<open>\<^verbatim>\<open>for (const x of xs) { await f(x) }\<close>\<close>

fun for_each :: "'a list \<Rightarrow> ('a \<Rightarrow> unit io) \<Rightarrow> unit io" where
  "for_each [] f = ret ()"
| "for_each (x # xs) f = bind (f x) (\<lambda>_. for_each xs f)"

text \<open>\<^verbatim>\<open>xs.map(f)\<close> where \<open>f\<close> may throw: the first exception ends the map.\<close>

fun map_throwing :: "('a \<Rightarrow> error + 'b) \<Rightarrow> 'a list \<Rightarrow> error + 'b list" where
  "map_throwing f [] = Inr []"
| "map_throwing f (x # xs) =
     (case f x of Inl e \<Rightarrow> Inl e
      | Inr y \<Rightarrow> (case map_throwing f xs of Inl e \<Rightarrow> Inl e | Inr ys \<Rightarrow> Inr (y # ys)))"

text \<open>One call to the store: it consumes the next entry of the schedule.\<close>

definition attempt :: "unit io" where
  "attempt db =
     (case faults db of
        [] \<Rightarrow> (Inr (), db)
      | f # fs \<Rightarrow> (if f then Inl BackendFailure else Inr (), db\<lparr>faults := fs\<rparr>))"

text \<open>
  Queries. \<^verbatim>\<open>where(f, '==', v)\<close> keeps the documents whose field \<open>f\<close> equals \<open>v\<close>;
  \<^verbatim>\<open>orderBy(f, dir)\<close> keeps the documents that have a field \<open>f\<close> and sorts them
  by its value, ties broken by document identifier in the same direction. Values of
  different types are ordered by type (null, booleans, numbers, timestamps, strings,
  arrays, maps); the order inside arrays and maps is not refined here. A query
  without \<^verbatim>\<open>orderBy\<close> returns the documents by ascending identifier.
\<close>

datatype direction = Asc | Desc

datatype constraint = WhereEq string jsval | OrderBy string direction

fun matches :: "jsobject \<Rightarrow> constraint \<Rightarrow> bool" where
  "matches d (WhereEq f v) = (map_of d f = Some v)"
| "matches d (OrderBy f dir) = (map_of d f \<noteq> None)"

fun fs_key :: "jsval \<Rightarrow> nat \<times> int \<times> string" where
  "fs_key JNull = (0, 0, [])"
| "fs_key (JBool b) = (1, if b then 1 else 0, [])"
| "fs_key (JNum n) = (2, n, [])"
| "fs_key (JTimestamp t) = (3, t, [])"
| "fs_key (JStr s) = (4, 0, s)"
| "fs_key (JArr vs) = (5, 0, [])"
| "fs_key (JObj kvs) = (6, 0, [])"
| "fs_key _ = (7, 0, [])"

fun ordering :: "constraint list \<Rightarrow> (string \<times> direction) option" where
  "ordering [] = None"
| "ordering (OrderBy f dir # cs) = Some (f, dir)"
| "ordering (WhereEq f v # cs) = ordering cs"

definition run_query :: "constraint list \<Rightarrow> collection \<Rightarrow> collection" where
  "run_query cs coll =
     (let hits = filter (\<lambda>(i, d). list_all (matches d) cs) coll in
      case ordering cs of
        None \<Rightarrow> sort_key fst hits
      | Some (f, Asc) \<Rightarrow> sort_key (\<lambda>(i, d). (fs_key (obj_get d f), i)) hits
      | Some (f, Desc) \<Rightarrow> rev (sort_key (\<lambda>(i, d). (fs_key (obj_get d f), i)) hits))"

text \<open>
  \<^verbatim>\<open>getDocs\<close>, \<^verbatim>\<open>getDoc\<close> (\<open>None\<close> when \<^verbatim>\<open>exists()\<close> is false), \<^verbatim>\<open>setDoc\<close>
  (replaces the document), \<^verbatim>\<open>updateDoc\<close> (merges the given fields into an existing
  document and throws when there is none) and \<^verbatim>\<open>deleteDoc\<close> (succeeds whether or
  not the document exists).
\<close>

definition getDocs :: "string \<Rightarrow> constraint list \<Rightarrow> collection io" where
  "getDocs name cs = bind attempt (\<lambda>_ db. (Inr (run_query cs (colls db name)), db))"

definition getDoc :: "string \<Rightarrow> string \<Rightarrow> jsobject option io" where
  "getDoc name i = bind attempt (\<lambda>_ db. (Inr (map_of (colls db name) i), db))"

definition setDoc :: "string \<Rightarrow> string \<Rightarrow> jsobject \<Rightarrow> unit io" where
  "setDoc name i d =
     bind attempt (\<lambda>_ db. (Inr (), db\<lparr>colls := (colls db)(name := AList.update i d (colls db name))\<rparr>))"

definition updateDoc :: "string \<Rightarrow> string \<Rightarrow> jsobject \<Rightarrow> unit io" where
  "updateDoc name i upd =
     bind attempt (\<lambda>_ db.
       case map_of (colls db name) i of
         None \<Rightarrow> (Inl BackendFailure, db)
       | Some d \<Rightarrow>
           (Inr (), db\<lparr>colls := (colls db)(name := AList.update i (AList.merge d upd) (colls db name))\<rparr>))"

definition deleteDoc :: "string \<Rightarrow> string \<Rightarrow> unit io" where
  "deleteDoc name i =
     bind attempt (\<lambda>_ db. (Inr (), db\<lparr>colls := (colls db)(name := AList.delete i (colls db name))\<rparr>))"

section \<open>The persistence gateway (server/firestore-storage.ts)\<close>

text \<open>
  Results are the object literals of the source, field by field. \<^verbatim>\<open>randomUUID()\<close> and
  \<^verbatim>\<open>new Date()\<close> are inputs of the model: the fresh identifier \<open>i\<close> and the
  current time \<open>now\<close>.
\<close>

subsection \<open>Users, kept in memory\<close>

record memory =
  users :: "(jsval \<times> jsobject) list"
  userIdCounter :: int

text \<open>
  The state after the constructor and \<^verbatim>\<open>initializeDefaultData\<close>; \<open>hash\<close> is
  what \<^verbatim>\<open>bcrypt.hashSync\<close> returned.
\<close>

definition initial_memory :: "string \<Rightarrow> int \<Rightarrow> memory" where
  "initial_memory hash now =
     \<lparr>users = [(JNum 1,
         [(''id'', JNum 1), (''email'', JStr ''test@test.com''), (''password'', JStr hash),
          (''name'', JStr ''Test User''), (''phone'', JNull), (''role'', JStr ''client''),
          (''active'', JBool True), (''createdAt'', JDate now)])],
      userIdCounter = 2\<rparr>"

definition getUserById :: "memory \<Rightarrow> jsval \<Rightarrow> jsobject option" where
  "getUserById mem i = map_of (users mem) i"

definition createUser :: "jsobject \<Rightarrow> int \<Rightarrow> memory \<Rightarrow> jsobject \<times> memory" where
  "createUser insertUser now mem =
     (let i = userIdCounter mem;
          user =
            [(''id'', JNum i),
             (''email'', obj_get insertUser ''email''),
             (''password'', obj_get insertUser ''password''),
             (''name'', obj_get insertUser ''name''),
             (''phone'', nullish (obj_get insertUser ''phone'') JNull),
             (''role'', nullish (obj_get insertUser ''role'') (JStr ''client'')),
             (''active'', JBool True),
             (''createdAt'', JDate now)]
      in (user, mem\<lparr>users := AList.update (JNum i) user (users mem), userIdCounter := i + 1\<rparr>))"

subsection \<open>Categories\<close>

text \<open>The accented letters of the seed data are written as their UTF-8 bytes.\<close>

definition categoriesData :: "jsobject list" where
  "categoriesData =
     [[(''id'', JStr ''crepe''), (''name'', JStr (''Cr'' @ [CHR 0xC3, CHR 0xAA] @ ''pe'')),
       (''description'', JStr (''D'' @ [CHR 0xC3, CHR 0xA9] @ ''licieuses cr'' @ [CHR 0xC3, CHR 0xAA] @ ''pes artisanales'')),
       (''order'', JNum 1)],
      [(''id'', JStr ''cheesecake''), (''name'', JStr ''Cheesecake''),
       (''description'', JStr ''Cheesecakes onctueux et savoureux''), (''order'', JNum 2)],
      [(''id'', JStr ''donuts''), (''name'', JStr ''Donuts''),
       (''description'', JStr ''Donuts moelleux et gourmands''), (''order'', JNum 3)],
      [(''id'', JStr ''mini-pancakes''), (''name'', JStr ''Mini-Pancakes''),
       (''description'', JStr (''Mini-pancakes d'' @ [CHR 0xC3, CHR 0xA9] @ ''licieux'')), (''order'', JNum 4)],
      [(''id'', JStr ''fondant''), (''name'', JStr ''Fondant''),
       (''description'', JStr ''Fondants au chocolat fondant''), (''order'', JNum 5)],
      [(''id'', JStr ''tiramisu''), (''name'', JStr ''Tiramisu''),
       (''description'', JStr (''Tiramisu traditionnel et cr'' @ [CHR 0xC3, CHR 0xA9] @ ''atif'')), (''order'', JNum 6)],
      [(''id'', JStr ''boissons-fraiches''), (''name'', JStr (''Boissons Fra'' @ [CHR 0xC3, CHR 0xAE] @ ''ches'')),
       (''description'', JStr ''Jus de fruits frais''), (''order'', JNum 7)],
      [(''id'', JStr ''boissons-chaudes''), (''name'', JStr ''Boissons Chaudes''),
       (''description'', JStr (''Caf'' @ [CHR 0xC3, CHR 0xA9] @ '', th'' @ [CHR 0xC3, CHR 0xA9] @ '' et boissons chaudes'')),
       (''order'', JNum 8)]]"

text \<open>\<^verbatim>\<open>category.id\<close> as the document identifier: every seed has a string id.\<close>

definition str_of :: "jsval \<Rightarrow> string" where
  "str_of v = (case v of JStr s \<Rightarrow> s | _ \<Rightarrow> [])"

definition initializeCategories :: "unit io" where
  "initializeCategories =
     try_catch
       (bind (getDocs ''categories'' []) (\<lambda>snapshot.
          if snapshot = [] then
            for_each categoriesData (\<lambda>category.
              setDoc ''categories'' (str_of (obj_get category ''id'')) category)
          else ret ()))
       (\<lambda>e. ret ())"

definition getCategories :: "jsobject list io" where
  "getCategories =
     try_catch
       (bind (getDocs ''categories'' [OrderBy ''order'' Asc]) (\<lambda>snapshot.
          ret (map (\<lambda>(i, d). AList.merge [(''id'', JStr i)] d) snapshot)))
       (\<lambda>e. ret [])"

subsection \<open>Menu items\<close>

definition menuItem_of_doc :: "string \<Rightarrow> jsobject \<Rightarrow> jsobject" where
  "menuItem_of_doc i d =
     [(''id'', JStr i),
      (''name'', obj_get d ''name''),
      (''description'', obj_get d ''description''),
      (''price'', obj_get d ''price''),
      (''deliveryFee'', js_or (obj_get d ''deliveryFee'') (JStr ''0'')),
      (''categoryId'', obj_get d ''categoryId''),
      (''imageUrl'', js_or (obj_get d ''imageUrl'') JNull),
      (''available'', JBool (obj_get d ''available'' \<noteq> JBool False)),
      (''popular'', js_or (obj_get d ''popular'') (JBool False))]"

definition getMenuItems :: "jsobject list io" where
  "getMenuItems =
     try_catch
       (bind (getDocs ''menuItems'' []) (\<lambda>snapshot.
          ret (map (\<lambda>(i, d). menuItem_of_doc i d) snapshot)))
       (\<lambda>e. ret [])"

definition getMenuItem :: "string \<Rightarrow> jsobject option io" where
  "getMenuItem i =
     try_catch
       (bind (getDoc ''menuItems'' i) (\<lambda>docSnap.
          case docSnap of
            None \<Rightarrow> ret None
          | Some d \<Rightarrow> ret (Some (menuItem_of_doc i d))))
       (\<lambda>e. ret None)"

text \<open>\<^verbatim>\<open>typeof x === 'number' ? x.toString() : x\<close>\<close>

definition number_to_string :: "jsval \<Rightarrow> jsval" where
  "number_to_string x = (case x of JNum n \<Rightarrow> JStr (number_toString n) | _ \<Rightarrow> x)"





definition deleteMenuItem :: "string \<Rightarrow> bool io" where
  "deleteMenuItem i =
     try_catch (bind (deleteDoc ''menuItems'' i) (\<lambda>_. ret True)) (\<lambda>e. ret False)"

subsection \<open>Reservations\<close>

definition reservation_of_doc :: "string \<Rightarrow> jsobject \<Rightarrow> error + jsobject" where
  "reservation_of_doc i d =
     (case toDate_or_new (obj_get d ''createdAt'') of
        Inl e \<Rightarrow> Inl e
      | Inr createdAt \<Rightarrow>
          Inr [(''id'', JStr i),
               (''name'', obj_get d ''name''),
               (''email'', obj_get d ''email''),
               (''phone'', obj_get d ''phone''),
               (''date'', obj_get d ''date''),
               (''time'', obj_get d ''time''),
               (''partySize'', obj_get d ''partySize''),
               (''specialRequests'', js_or (obj_get d ''specialRequests'') JNull),
               (''status'', js_or (obj_get d ''status'') (JStr ''pending'')),
               (''createdAt'', createdAt)])"

definition getReservations :: "jsobject list io" where
  "getReservations =
     try_catch
       (bind (getDocs ''reservations'' [OrderBy ''createdAt'' Desc]) (\<lambda>snapshot.
          lift (map_throwing (\<lambda>(i, d). reservation_of_doc i d) snapshot)))
       (\<lambda>e. ret [])"


subsection \<open>Orders\<close>

text \<open>
  The five order readers build the same literal and differ in three fields
  (\<^verbatim>\<open>userId\<close>, \<^verbatim>\<open>status\<close>, \<^verbatim>\<open>livreurId\<close>), which are passed in as each reader
  computes them.
\<close>

definition order_of_doc :: "string \<Rightarrow> jsobject \<Rightarrow> jsval \<Rightarrow> jsval \<Rightarrow> jsval \<Rightarrow> error + jsobject" where
  "order_of_doc i d userId status livreurId =
     (case toDate_or_new (obj_get d ''createdAt'') of
        Inl e \<Rightarrow> Inl e
      | Inr createdAt \<Rightarrow>
          (case toDate_or_new (obj_get d ''updatedAt'') of
             Inl e \<Rightarrow> Inl e
           | Inr updatedAt \<Rightarrow>
               Inr [(''id'', JStr i),
                    (''userId'', userId),
                    (''customerName'', obj_get d ''customerName''),
                    (''customerEmail'', obj_get d ''customerEmail''),
                    (''customerPhone'', obj_get d ''customerPhone''),
                    (''items'', obj_get d ''items''),
                    (''totalAmount'', obj_get d ''totalAmount''),
                    (''orderType'', obj_get d ''orderType''),
                    (''deliveryAddress'', js_or (obj_get d ''deliveryAddress'') JNull),
                    (''notes'', js_or (obj_get d ''notes'') JNull),
                    (''status'', status),
                    (''livreurId'', livreurId),
                    (''createdAt'', createdAt),
                    (''updatedAt'', updatedAt)]))"

definition order_full :: "string \<Rightarrow> jsobject \<Rightarrow> error + jsobject" where
  "order_full i d =
     order_of_doc i d
       (js_or (obj_get d ''userId'') JNull)
       (js_or (obj_get d ''status'') (JStr ''pending''))
       (js_or (obj_get d ''livreurId'') JNull)"

definition getOrders :: "jsobject list io" where
  "getOrders =
     try_catch
       (bind (getDocs ''orders'' [OrderBy ''createdAt'' Desc]) (\<lambda>snapshot.
          lift (map_throwing (\<lambda>(i, d). order_full i d) snapshot)))
       (\<lambda>e. ret [])"

definition getOrder :: "string \<Rightarrow> jsobject option io" where
  "getOrder i =
     try_catch
       (bind (getDoc ''orders'' i) (\<lambda>docSnap.
          case docSnap of
            None \<Rightarrow> ret None
          | Some d \<Rightarrow> bind (lift (order_full i d)) (\<lambda>order. ret (Some order))))
       (\<lambda>e. ret None)"

definition createOrder :: "jsobject \<Rightarrow> string \<Rightarrow> int \<Rightarrow> jsobject io" where
  "createOrder insertOrder i now =
     (let order =
        [(''id'', JStr i),
         (''userId'', nullish (obj_get insertOrder ''userId'') JNull),
         (''customerName'', obj_get insertOrder ''customerName''),
         (''customerEmail'', obj_get insertOrder ''customerEmail''),
         (''customerPhone'', obj_get insertOrder ''customerPhone''),
         (''items'', obj_get insertOrder ''items''),
         (''totalAmount'', obj_get insertOrder ''totalAmount''),
         (''orderType'', obj_get insertOrder ''orderType''),
         (''deliveryAddress'', nullish (obj_get insertOrder ''deliveryAddress'') JNull),
         (''notes'', nullish (obj_get insertOrder ''notes'') JNull),
         (''status'', JStr ''pending''),
         (''livreurId'', nullish (obj_get insertOrder ''livreurId'') JNull),
         (''createdAt'', JDate now),
         (''updatedAt'', JDate now)];
          firestoreData =
            AList.update ''updatedAt'' (JTimestamp now)
              (AList.update ''createdAt'' (JTimestamp now) order)
      in bind (setDoc ''orders'' i firestoreData) (\<lambda>_. ret order))"

definition updateOrder :: "string \<Rightarrow> jsobject \<Rightarrow> int \<Rightarrow> jsobject option io" where
  "updateOrder i updates now =
     try_catch
       (bind (getDoc ''orders'' i) (\<lambda>docSnap.
          case docSnap of
            None \<Rightarrow> ret None
          | Some d \<Rightarrow>
              (let updateData = AList.update ''updatedAt'' (JTimestamp now) updates
               in bind (updateDoc ''orders'' i (strip_undefined updateData)) (\<lambda>_. getOrder i))))
       (\<lambda>e. ret None)"

text \<open>The literal of \<^verbatim>\<open>getOrdersByUser\<close>, of \<^verbatim>\<open>getOrdersByLivreur\<close> and of \<^verbatim>\<open>getPendingOrders\<close>.\<close>

definition order_by_user :: "string \<Rightarrow> jsobject \<Rightarrow> error + jsobject" where
  "order_by_user i d =
     order_of_doc i d
       (obj_get d ''userId'')
       (obj_get d ''status'')
       (js_or (obj_get d ''livreurId'') JNull)"

definition order_by_livreur :: "string \<Rightarrow> jsobject \<Rightarrow> error + jsobject" where
  "order_by_livreur i d =
     order_of_doc i d
       (js_or (obj_get d ''userId'') JNull)
       (obj_get d ''status'')
       (obj_get d ''livreurId'')"

definition order_pending :: "string \<Rightarrow> jsobject \<Rightarrow> error + jsobject" where
  "order_pending i d =
     order_of_doc i d
       (js_or (obj_get d ''userId'') JNull)
       (obj_get d ''status'')
       (js_or (obj_get d ''livreurId'') JNull)"

definition getOrdersByUser :: "jsval \<Rightarrow> jsobject list io" where
  "getOrdersByUser userId =
     try_catch
       (bind (getDocs ''orders'' [WhereEq ''userId'' userId, OrderBy ''createdAt'' Desc]) (\<lambda>snapshot.
          lift (map_throwing (\<lambda>(i, d). order_by_user i d) snapshot)))
       (\<lambda>e. ret [])"

definition getOrdersByLivreur :: "jsval \<Rightarrow> jsobject list io" where
  "getOrdersByLivreur livreurId =
     try_catch
       (bind (getDocs ''orders'' [WhereEq ''livreurId'' livreurId, OrderBy ''createdAt'' Desc]) (\<lambda>snapshot.
          lift (map_throwing (\<lambda>(i, d). order_by_livreur i d) snapshot)))
       (\<lambda>e. ret [])"

definition getPendingOrders :: "jsobject list io" where
  "getPendingOrders =
     try_catch
       (bind (getDocs ''orders'' [WhereEq ''status'' (JStr ''pending''), OrderBy ''createdAt'' Desc]) (\<lambda>snapshot.
          lift (map_throwing (\<lambda>(i, d). order_pending i d) snapshot)))
       (\<lambda>e. ret [])"

section \<open>The order routes (server/routes.ts)\<close>

text \<open>
  \<open>Response s b\<close> is \<^verbatim>\<open>res.status(s).json(b)\<close>. A handler receives the session's
  user id (\<^verbatim>\<open>requireAuth\<close> has checked that there is one), the request and the two
  instants read by itself and by \<^verbatim>\<open>updateOrder\<close>.
\<close>

datatype response = Response nat jsval

definition error_body :: "string \<Rightarrow> jsval" where
  "error_body msg = JObj [(''error'', JStr msg)]"

definition get_api_orders :: "memory \<Rightarrow> jsval \<Rightarrow> response io" where
  "get_api_orders mem sessionUserId =
     try_catch
       (case getUserById mem sessionUserId of
          None \<Rightarrow> ret (Response 404 (error_body ''User not found''))
        | Some user \<Rightarrow>
            bind
              (if obj_get user ''role'' = JStr ''owner'' then getOrders
               else if obj_get user ''role'' = JStr ''livreur'' then
                 bind getPendingOrders (\<lambda>pendingOrders.
                 bind (getOrdersByLivreur (obj_get user ''id'')) (\<lambda>assignedOrders.
                   ret (map snd
                     (fold (\<lambda>order orderMap. AList.update (obj_get order ''id'') order orderMap)
                        (pendingOrders @ assignedOrders) []))))
               else getOrdersByUser (obj_get user ''id''))
              (\<lambda>orders. ret (Response 200 (JArr (map JObj orders)))))
       (\<lambda>e. ret (Response 500 (error_body ''Failed to fetch orders'')))"

text \<open>
  The local \<^verbatim>\<open>updates\<close> of the PATCH handler: the new status when the body has
  one, and the courier's own id when a courier confirms an order that has none.
\<close>

definition order_updates :: "jsobject \<Rightarrow> jsobject \<Rightarrow> jsobject \<Rightarrow> int \<Rightarrow> jsobject" where
  "order_updates user order body now =
     (let updates0 = [(''updatedAt'', JDate now)] in
      if truthy (obj_get body ''status'') then
        (let updates1 = AList.update ''status'' (obj_get body ''status'') updates0
         in if obj_get body ''status'' = JStr ''confirmed''
               \<and> obj_get user ''role'' = JStr ''livreur''
               \<and> \<not> truthy (obj_get order ''livreurId'')
            then AList.update ''livreurId'' (obj_get user ''id'') updates1
            else updates1)
      else updates0)"

definition patch_api_orders_id ::
  "memory \<Rightarrow> jsval \<Rightarrow> string \<Rightarrow> jsobject \<Rightarrow> int \<Rightarrow> int \<Rightarrow> response io" where
  "patch_api_orders_id mem sessionUserId i body now now' =
     try_catch
       (case getUserById mem sessionUserId of
          None \<Rightarrow> ret (Response 404 (error_body ''User not found''))
        | Some user \<Rightarrow>
            bind (getOrder i) (\<lambda>found.
              case found of
                None \<Rightarrow> ret (Response 404 (error_body ''Order not found''))
              | Some order \<Rightarrow>
                  if obj_get user ''role'' = JStr ''livreur'' \<or> obj_get user ''role'' = JStr ''owner''
                  then
                    bind (updateOrder i (order_updates user order body now) now') (\<lambda>updatedOrder.
                      ret (Response 200
                        (case updatedOrder of None \<Rightarrow> JUndefined | Some ob \<Rightarrow> JObj ob)))
                  else ret (Response 403 (error_body ''Not authorized to update orders''))))
       (\<lambda>e. ret (Response 500 (error_body ''Failed to update order'')))"

section \<open>Notions used to state the properties\<close>

text \<open>
  \<open>next_fault db\<close>: the next call to the store throws. \<open>advance db\<close>: the store
  after one call that wrote nothing.
\<close>

definition next_fault :: "firestore \<Rightarrow> bool" where
  "next_fault db = (case faults db of [] \<Rightarrow> False | f # fs \<Rightarrow> f)"

definition advance :: "firestore \<Rightarrow> firestore" where
  "advance db = db\<lparr>faults := tl (faults db)\<rparr>"

text \<open>What a \<^verbatim>\<open>catch\<close> that returns the empty list, or \<^verbatim>\<open>undefined\<close>, makes of a result.\<close>

definition or_empty :: "error + 'a list \<Rightarrow> 'a list" where
  "or_empty r = (case r of Inl e \<Rightarrow> [] | Inr xs \<Rightarrow> xs)"

definition or_none :: "error + 'a \<Rightarrow> 'a option" where
  "or_none r = (case r of Inl e \<Rightarrow> None | Inr x \<Rightarrow> Some x)"






text \<open>The category collection after seeding: each seed under its own identifier.\<close>

definition seeded :: collection where
  "seeded = map (\<lambda>category. (str_of (obj_get category ''id''), category)) categoriesData"

text \<open>
  The user map as \<^verbatim>\<open>createUser\<close> and the default data build it: every key is the
  number that is the user's own id, taken from a counter that starts at 1.
\<close>

definition user_entry_ok :: "int \<Rightarrow> jsval \<times> jsobject \<Rightarrow> bool" where
  "user_entry_ok c e =
     (case fst e of
        JNum n \<Rightarrow> 1 \<le> n \<and> n < c \<and> obj_get (snd e) ''id'' = JNum n
      | _ \<Rightarrow> False)"

definition users_wf :: "memory \<Rightarrow> bool" where
  "users_wf mem = (1 \<le> userIdCounter mem \<and> list_all (user_entry_ok (userIdCounter mem)) (users mem))"

text \<open>What \<^verbatim>\<open>getOrder\<close> finds in a given store.\<close>

definition found_order :: "string \<Rightarrow> firestore \<Rightarrow> jsobject option" where
  "found_order i db =
     (if next_fault db then None
      else case map_of (colls db ''orders'') i of None \<Rightarrow> None | Some d \<Rightarrow> or_none (order_full i d))"

text \<open>
  A sequence of PATCH requests on one order, each with its own user store, session,
  body and instants.
\<close>

fun patch_all :: "(memory \<times> jsval \<times> jsobject \<times> int \<times> int) list \<Rightarrow> string \<Rightarrow> firestore \<Rightarrow> firestore" where
  "patch_all [] i db = db"
| "patch_all ((mem, sid, body, now, now') # rs) i db =
     patch_all rs i (snd (patch_api_orders_id mem sid i body now now' db))"

text \<open>
  The scenario of the visibility partition: a client (1), two couriers (2, 3), an owner
  (4), and the orders O1 (pending, unassigned), O2 (pending, assigned to courier 2) and
  O3 (confirmed, assigned to courier 3).
\<close>

definition demo_user :: "int \<Rightarrow> string \<Rightarrow> jsobject" where
  "demo_user n r =
     [(''id'', JNum n), (''email'', JStr (r @ ''@test.com'')), (''password'', JStr ''hash''),
      (''name'', JStr r), (''phone'', JNull), (''role'', JStr r), (''active'', JBool True),
      (''createdAt'', JDate 0)]"

definition demo_memory :: memory where
  "demo_memory =
     \<lparr>users = [(JNum 1, demo_user 1 ''client''), (JNum 2, demo_user 2 ''livreur''),
               (JNum 3, demo_user 3 ''livreur''), (JNum 4, demo_user 4 ''owner'')],
      userIdCounter = 5\<rparr>"

definition demo_order :: "jsval \<Rightarrow> jsval \<Rightarrow> int \<Rightarrow> jsobject" where
  "demo_order status livreurId t =
     [(''userId'', JNum 1), (''customerName'', JStr ''Ada''), (''totalAmount'', JStr ''12''),
      (''status'', status), (''livreurId'', livreurId),
      (''createdAt'', JTimestamp t), (''updatedAt'', JTimestamp t)]"

definition demo_store :: firestore where
  "demo_store =
     \<lparr>colls = (\<lambda>c. if c = ''orders'' then
                  [(''O1'', demo_order (JStr ''pending'') JNull 100),
                   (''O2'', demo_order (JStr ''pending'') (JNum 2) 200),
                   (''O3'', demo_order (JStr ''confirmed'') (JNum 3) 300)]
                else []),
      faults = []\<rparr>"

text \<open>
  The order collection as the gateway writes it: one document per identifier, and
  \<^verbatim>\<open>createdAt\<close> and \<^verbatim>\<open>updatedAt\<close> stored as Timestamps (\<^verbatim>\<open>createOrder\<close> and
  \<^verbatim>\<open>updateOrder\<close> write nothing else there).
\<close>

definition is_timestamp :: "jsval \<Rightarrow> bool" where
  "is_timestamp v = (case v of JTimestamp t \<Rightarrow> True | _ \<Rightarrow> False)"

definition orders_wf :: "collection \<Rightarrow> bool" where
  "orders_wf coll =
     (distinct (map fst coll)
      \<and> list_all (\<lambda>(i, d). is_timestamp (obj_get d ''createdAt'') \<and> is_timestamp (obj_get d ''updatedAt'')) coll)"

text \<open>The identifiers of the orders in a response, in the order of the response.\<close>

definition response_ids :: "error + response \<Rightarrow> jsval list" where
  "response_ids r =
     (case r of
        Inr (Response s (JArr obs)) \<Rightarrow> map (\<lambda>v. case v of JObj ob \<Rightarrow> obj_get ob ''id'' | _ \<Rightarrow> JUndefined) obs
      | _ \<Rightarrow> [])"




section \<open>The store calls and the gateway reads in closed form\<close>

lemma colls_advance [simp]: "colls (advance db) = colls db"
  by (simp add: advance_def)

lemma faults_advance [simp]: "faults (advance db) = tl (faults db)"
  by (simp add: advance_def)

lemma advance_no_faults [simp]: "faults db = [] \<Longrightarrow> advance db = db"
  by (simp add: advance_def)

lemma next_fault_no_faults [simp]: "faults db = [] \<Longrightarrow> \<not> next_fault db"
  by (simp add: next_fault_def)

lemma attempt_eq:
  "attempt db = (if next_fault db then Inl BackendFailure else Inr (), advance db)"
  by (cases "faults db") (auto simp: attempt_def next_fault_def advance_def)

lemma getDocs_eq:
  "getDocs name cs db =
     (if next_fault db then Inl BackendFailure else Inr (run_query cs (colls db name)), advance db)"
  by (simp add: getDocs_def bind_def attempt_eq)

lemma getDoc_eq:
  "getDoc name i db =
     (if next_fault db then Inl BackendFailure else Inr (map_of (colls db name) i), advance db)"
  by (simp add: getDoc_def bind_def attempt_eq)

lemma setDoc_eq:
  "setDoc name i d db =
     (if next_fault db then (Inl BackendFailure, advance db)
      else (Inr (), (advance db)\<lparr>colls := (colls db)(name := AList.update i d (colls db name))\<rparr>))"
  by (simp add: setDoc_def bind_def attempt_eq)

lemma updateDoc_eq:
  "updateDoc name i upd db =
     (if next_fault db then (Inl BackendFailure, advance db)
      else case map_of (colls db name) i of
             None \<Rightarrow> (Inl BackendFailure, advance db)
           | Some d \<Rightarrow> (Inr (), (advance db)\<lparr>colls := (colls db)(name := AList.update i (AList.merge d upd) (colls db name))\<rparr>))"
  by (simp add: updateDoc_def bind_def attempt_eq split: option.splits)

lemma deleteDoc_eq:
  "deleteDoc name i db =
     (if next_fault db then (Inl BackendFailure, advance db)
      else (Inr (), (advance db)\<lparr>colls := (colls db)(name := AList.delete i (colls db name))\<rparr>))"
  by (simp add: deleteDoc_def bind_def attempt_eq)

lemma getCategories_eq:
  "getCategories db =
     (Inr (if next_fault db then []
           else map (\<lambda>(i, d). AList.merge [(''id'', JStr i)] d)
                  (run_query [OrderBy ''order'' Asc] (colls db ''categories''))), advance db)"
  by (simp add: getCategories_def try_catch_def bind_def getDocs_eq ret_def)

lemma getMenuItems_eq:
  "getMenuItems db =
     (Inr (if next_fault db then []
           else map (\<lambda>(i, d). menuItem_of_doc i d) (run_query [] (colls db ''menuItems''))), advance db)"
  by (simp add: getMenuItems_def try_catch_def bind_def getDocs_eq ret_def)

lemma getMenuItem_eq:
  "getMenuItem i db =
     (Inr (if next_fault db then None
           else map_option (menuItem_of_doc i) (map_of (colls db ''menuItems'') i)), advance db)"
  by (simp add: getMenuItem_def try_catch_def bind_def getDoc_eq ret_def split: option.splits)

lemma getReservations_eq:
  "getReservations db =
     (Inr (if next_fault db then []
           else or_empty (map_throwing (\<lambda>(i, d). reservation_of_doc i d)
                  (run_query [OrderBy ''createdAt'' Desc] (colls db ''reservations'')))), advance db)"
  by (simp add: getReservations_def try_catch_def bind_def getDocs_eq ret_def lift_def or_empty_def
      split: sum.splits)

lemma getOrders_eq:
  "getOrders db =
     (Inr (if next_fault db then []
           else or_empty (map_throwing (\<lambda>(i, d). order_full i d)
                  (run_query [OrderBy ''createdAt'' Desc] (colls db ''orders'')))), advance db)"
  by (simp add: getOrders_def try_catch_def bind_def getDocs_eq ret_def lift_def or_empty_def
      split: sum.splits)

lemma getOrder_eq:
  "getOrder i db =
     (Inr (if next_fault db then None
           else case map_of (colls db ''orders'') i of
                  None \<Rightarrow> None
                | Some d \<Rightarrow> or_none (order_full i d)), advance db)"
  by (simp add: getOrder_def try_catch_def bind_def getDoc_eq ret_def lift_def or_none_def
      split: sum.splits option.splits)

lemma getOrdersByUser_eq:
  "getOrdersByUser u db =
     (Inr (if next_fault db then []
           else or_empty (map_throwing
                  (\<lambda>(i, d). order_by_user i d)
                  (run_query [WhereEq ''userId'' u, OrderBy ''createdAt'' Desc] (colls db ''orders'')))),
      advance db)"
  by (simp add: getOrdersByUser_def try_catch_def bind_def getDocs_eq ret_def lift_def or_empty_def
      split: sum.splits)

lemma getOrdersByLivreur_eq:
  "getOrdersByLivreur u db =
     (Inr (if next_fault db then []
           else or_empty (map_throwing
                  (\<lambda>(i, d). order_by_livreur i d)
                  (run_query [WhereEq ''livreurId'' u, OrderBy ''createdAt'' Desc] (colls db ''orders'')))),
      advance db)"
  by (simp add: getOrdersByLivreur_def try_catch_def bind_def getDocs_eq ret_def lift_def or_empty_def
      split: sum.splits)

lemma getPendingOrders_eq:
  "getPendingOrders db =
     (Inr (if next_fault db then []
           else or_empty (map_throwing
                  (\<lambda>(i, d). order_pending i d)
                  (run_query [WhereEq ''status'' (JStr ''pending''), OrderBy ''createdAt'' Desc] (colls db ''orders'')))),
      advance db)"
  by (simp add: getPendingOrders_def try_catch_def bind_def getDocs_eq ret_def lift_def or_empty_def
      split: sum.splits)

lemma deleteMenuItem_eq:
  "deleteMenuItem i db =
     (if next_fault db then (Inr False, advance db)
      else (Inr True, (advance db)\<lparr>colls := (colls db)(''menuItems'' := AList.delete i (colls db ''menuItems''))\<rparr>))"
  by (simp add: deleteMenuItem_def try_catch_def bind_def deleteDoc_eq ret_def)

lemma updateOrder_eq:
  "updateOrder i updates now db =
     (if next_fault db then (Inr None, advance db)
      else case map_of (colls db ''orders'') i of
        None \<Rightarrow> (Inr None, advance db)
      | Some d \<Rightarrow>
          if next_fault (advance db) then (Inr None, advance (advance db))
          else getOrder i ((advance (advance db))\<lparr>colls := (colls db)(''orders'' :=
                 AList.update i (AList.merge d (strip_undefined (AList.update ''updatedAt'' (JTimestamp now) updates)))
                   (colls db ''orders''))\<rparr>))"
  by (simp add: updateOrder_def try_catch_def bind_def getDoc_eq updateDoc_eq ret_def Let_def getOrder_eq
      split: option.splits)









section \<open>Creating records\<close>



text \<open>
  C10. The order that \<^verbatim>\<open>createOrder\<close> returns has status "pending" whatever the
  input says, its \<^verbatim>\<open>createdAt\<close> and \<^verbatim>\<open>updatedAt\<close> are the one creation instant,
  and \<^verbatim>\<open>userId\<close>, \<^verbatim>\<open>deliveryAddress\<close>, \<^verbatim>\<open>notes\<close> and \<^verbatim>\<open>livreurId\<close> are an explicit
  null when the input lacks them (and the input's value otherwise). It is returned
  whenever the store accepts the write.
\<close>

theorem createOrder_pending_and_normalised:
  assumes "\<not> next_fault db"
  shows "\<exists>ord db'. createOrder ins i now db = (Inr ord, db')
     \<and> obj_get ord ''status'' = JStr ''pending''
     \<and> obj_get ord ''createdAt'' = JDate now
     \<and> obj_get ord ''updatedAt'' = obj_get ord ''createdAt''
     \<and> (\<forall>k \<in> {''userId'', ''deliveryAddress'', ''notes'', ''livreurId''}.
           (obj_get ins k = JUndefined \<longrightarrow> map_of ord k = Some JNull)
         \<and> (obj_get ins k \<noteq> JUndefined \<longrightarrow> map_of ord k = Some (obj_get ins k)))"
  using assms
  by (simp add: createOrder_def Let_def bind_def setDoc_eq ret_def obj_get_def nullish_def)

theorem createOrder_pending_and_normalised_witness:
  "\<not> next_fault \<lparr>colls = (\<lambda>c. []), faults = []\<rparr>
   \<and> (\<exists>ord db'.
         createOrder [(''customerName'', JStr ''Ada''), (''status'', JStr ''confirmed'')] ''o1'' 1000
           \<lparr>colls = (\<lambda>c. []), faults = []\<rparr> = (Inr ord, db')
       \<and> obj_get ord ''status'' = JStr ''pending''
       \<and> obj_get ord ''updatedAt'' = obj_get ord ''createdAt''
       \<and> map_of ord ''livreurId'' = Some JNull)"
proof -
  have h: "\<not> next_fault \<lparr>colls = (\<lambda>c. []), faults = []\<rparr>"
    by (simp add: next_fault_def)
  have "obj_get [(''customerName'', JStr ''Ada''), (''status'', JStr ''confirmed'')] ''livreurId'' = JUndefined"
    by (simp add: obj_get_def)
  with h createOrder_pending_and_normalised
         [OF h, of "[(''customerName'', JStr ''Ada''), (''status'', JStr ''confirmed'')]" "''o1''" 1000]
  show ?thesis by blast
qed

section \<open>Deleting a menu item\<close>

text \<open>
  C6. \<^verbatim>\<open>deleteMenuItem\<close> never throws, and what it returns depends on the store's
  answer alone, not on whether the identifier exists: two stores with the same
  schedule give the same outcome. With a store that answers, a second call on the
  same identifier returns the same \<^verbatim>\<open>true\<close> and leaves the store as the first
  call left it.
\<close>

theorem deleteMenuItem_idempotent:
  "fst (deleteMenuItem i db) = Inr (\<not> next_fault db)
   \<and> (faults db2 = faults db \<longrightarrow> fst (deleteMenuItem i db2) = fst (deleteMenuItem i db))
   \<and> (faults db = [] \<longrightarrow>
        (\<exists>db1. deleteMenuItem i db = (Inr True, db1)
             \<and> deleteMenuItem i db1 = (Inr True, db1)
             \<and> map_of (colls db1 ''menuItems'') i = None))"
  by (auto simp: deleteMenuItem_eq next_fault_def AList.delete_idem AList.delete_conv')

theorem deleteMenuItem_idempotent_witness:
  "fst (deleteMenuItem ''m1'' \<lparr>colls = (\<lambda>c. []), faults = []\<rparr>)
     = fst (deleteMenuItem ''m1'' \<lparr>colls = (\<lambda>c. [(''m1'', [(''name'', JStr ''Crepe'')])]), faults = []\<rparr>)
   \<and> (\<exists>db1. deleteMenuItem ''m1'' \<lparr>colls = (\<lambda>c. [(''m1'', [(''name'', JStr ''Crepe'')])]), faults = []\<rparr>
               = (Inr True, db1)
           \<and> deleteMenuItem ''m1'' db1 = (Inr True, db1))"
  using deleteMenuItem_idempotent
          [of "''m1''" "\<lparr>colls = (\<lambda>c. [(''m1'', [(''name'', JStr ''Crepe'')])]), faults = []\<rparr>"
              "\<lparr>colls = (\<lambda>c. []), faults = []\<rparr>"]
  by auto

section \<open>Reads never throw\<close>

text \<open>
  C7. Every read of the gateway returns a value, for every content of the store and
  every schedule of failures, and when the store's call throws the value is the
  empty list (\<^verbatim>\<open>undefined\<close> for the two point lookups).
\<close>

theorem reads_never_throw:
  "(\<exists>v. fst (getCategories db) = Inr v) \<and> (next_fault db \<longrightarrow> fst (getCategories db) = Inr [])
   \<and> (\<exists>v. fst (getMenuItems db) = Inr v) \<and> (next_fault db \<longrightarrow> fst (getMenuItems db) = Inr [])
   \<and> (\<exists>v. fst (getMenuItem i db) = Inr v) \<and> (next_fault db \<longrightarrow> fst (getMenuItem i db) = Inr None)
   \<and> (\<exists>v. fst (getReservations db) = Inr v) \<and> (next_fault db \<longrightarrow> fst (getReservations db) = Inr [])
   \<and> (\<exists>v. fst (getOrders db) = Inr v) \<and> (next_fault db \<longrightarrow> fst (getOrders db) = Inr [])
   \<and> (\<exists>v. fst (getOrder i db) = Inr v) \<and> (next_fault db \<longrightarrow> fst (getOrder i db) = Inr None)
   \<and> (\<exists>v. fst (getOrdersByUser u db) = Inr v) \<and> (next_fault db \<longrightarrow> fst (getOrdersByUser u db) = Inr [])
   \<and> (\<exists>v. fst (getOrdersByLivreur u db) = Inr v) \<and> (next_fault db \<longrightarrow> fst (getOrdersByLivreur u db) = Inr [])
   \<and> (\<exists>v. fst (getPendingOrders db) = Inr v) \<and> (next_fault db \<longrightarrow> fst (getPendingOrders db) = Inr [])"
  by (simp add: getCategories_eq getMenuItems_eq getMenuItem_eq getReservations_eq getOrders_eq
      getOrder_eq getOrdersByUser_eq getOrdersByLivreur_eq getPendingOrders_eq)

theorem reads_never_throw_witness:
  "next_fault \<lparr>colls = (\<lambda>c. [(''o1'', [(''status'', JStr ''pending'')])]), faults = [True]\<rparr>
   \<and> fst (getOrders \<lparr>colls = (\<lambda>c. [(''o1'', [(''status'', JStr ''pending'')])]), faults = [True]\<rparr>) = Inr []
   \<and> fst (getOrder ''o1'' \<lparr>colls = (\<lambda>c. [(''o1'', [(''status'', JStr ''pending'')])]), faults = [True]\<rparr>) = Inr None"
proof -
  have h: "next_fault \<lparr>colls = (\<lambda>c. [(''o1'', [(''status'', JStr ''pending'')])]), faults = [True]\<rparr>"
    by (simp add: next_fault_def)
  with reads_never_throw
         [of "\<lparr>colls = (\<lambda>c. [(''o1'', [(''status'', JStr ''pending'')])]), faults = [True]\<rparr>" "''o1''"]
  show ?thesis by blast
qed

section \<open>Seeding the categories\<close>

lemma sort_key_empty_iff: "sort_key f xs = [] \<longleftrightarrow> xs = []"
  by (metis length_0_conv length_sort)

lemma run_query_all_empty_iff: "run_query [] coll = [] \<longleftrightarrow> coll = []"
  by (simp add: run_query_def sort_key_empty_iff)

lemma initializeCategories_populated:
  "colls db ''categories'' \<noteq> [] \<Longrightarrow> initializeCategories db = (Inr (), advance db)"
  by (simp add: initializeCategories_def try_catch_def bind_def getDocs_eq ret_def run_query_all_empty_iff)

lemma initializeCategories_fault:
  "next_fault db \<Longrightarrow> initializeCategories db = (Inr (), advance db)"
  by (simp add: initializeCategories_def try_catch_def bind_def getDocs_eq ret_def)

lemma seeded_eval:
  "fold (\<lambda>category c. AList.update (str_of (obj_get category ''id'')) category c) categoriesData [] = seeded"
  by (simp add: categoriesData_def seeded_def str_of_def obj_get_def)

lemma for_each_setDoc:
  "faults db = [] \<Longrightarrow>
   for_each cs (\<lambda>category. setDoc name (key category) category) db =
     (Inr (), db\<lparr>colls := (colls db)(name := fold (\<lambda>category c. AList.update (key category) category c) cs (colls db name))\<rparr>)"
proof (induction cs arbitrary: db)
  case Nil
  then show ?case by (simp add: ret_def)
next
  case (Cons c cs)
  let ?f = "\<lambda>category. setDoc name (key category) category"
  let ?db1 = "db\<lparr>colls := (colls db)(name := AList.update (key c) c (colls db name))\<rparr>"
  have f: "faults ?db1 = []" using Cons.prems by simp
  have "for_each (c # cs) ?f db = for_each cs ?f ?db1"
    using Cons.prems by (simp add: bind_def setDoc_eq)
  also have "\<dots> = (Inr (), ?db1\<lparr>colls := (colls ?db1)(name :=
      fold (\<lambda>category c. AList.update (key category) category c) cs (colls ?db1 name))\<rparr>)"
    by (rule Cons.IH [OF f])
  also have "\<dots> = (Inr (), db\<lparr>colls := (colls db)(name :=
      fold (\<lambda>category c. AList.update (key category) category c) (c # cs) (colls db name))\<rparr>)"
    by simp
  finally show ?case .
qed

lemma initializeCategories_seeds:
  assumes "faults db = []" "colls db ''categories'' = []"
  shows "initializeCategories db = (Inr (), db\<lparr>colls := (colls db)(''categories'' := seeded)\<rparr>)"
  using assms
  by (simp add: initializeCategories_def try_catch_def bind_def getDocs_eq ret_def
      run_query_all_empty_iff for_each_setDoc seeded_eval)

lemma seeded_length: "length seeded = 8 \<and> distinct (map fst seeded)"
  by (simp add: seeded_def categoriesData_def str_of_def obj_get_def)

text \<open>
  C8. Initialization writes the eight default categories exactly when the category
  collection is empty: on an empty collection (and a store that answers) the
  collection becomes the eight seeds; on a collection that already holds a document
  nothing at all is written, whatever the store does; so a second run after a first
  changes nothing. Initialization never throws.
\<close>

theorem initializeCategories_seeds_once:
  "(colls db ''categories'' \<noteq> [] \<longrightarrow> colls (snd (initializeCategories db)) = colls db)
   \<and> (faults db = [] \<and> colls db ''categories'' = [] \<longrightarrow>
        colls (snd (initializeCategories db)) = (colls db)(''categories'' := seeded))
   \<and> length seeded = 8 \<and> distinct (map fst seeded)
   \<and> (faults db = [] \<longrightarrow>
        snd (initializeCategories (snd (initializeCategories db))) = snd (initializeCategories db))
   \<and> fst (initializeCategories db) = Inr ()"
proof (intro conjI impI)
  show "colls (snd (initializeCategories db)) = colls db" if "colls db ''categories'' \<noteq> []"
    using that by (simp add: initializeCategories_populated)
  show "colls (snd (initializeCategories db)) = (colls db)(''categories'' := seeded)"
    if "faults db = [] \<and> colls db ''categories'' = []"
    using that by (simp add: initializeCategories_seeds)
  show "length seeded = 8" "distinct (map fst seeded)"
    using seeded_length by simp_all
  show "snd (initializeCategories (snd (initializeCategories db))) = snd (initializeCategories db)"
    if nf: "faults db = []"
  proof (cases "colls db ''categories'' = []")
    case True
    let ?db1 = "db\<lparr>colls := (colls db)(''categories'' := seeded)\<rparr>"
    have "seeded \<noteq> []" using seeded_length by auto
    then have "colls ?db1 ''categories'' \<noteq> []" by simp
    moreover have "faults ?db1 = []" using nf by simp
    ultimately have "initializeCategories ?db1 = (Inr (), ?db1)"
      by (simp add: initializeCategories_populated)
    with nf True show ?thesis by (simp add: initializeCategories_seeds)
  next
    case False
    with nf show ?thesis by (simp add: initializeCategories_populated)
  qed
  show "fst (initializeCategories db) = Inr ()"
    by (simp add: initializeCategories_def try_catch_def bind_def ret_def split: prod.splits sum.splits)
qed

theorem initializeCategories_seeds_once_witness:
  "colls (snd (initializeCategories \<lparr>colls = (\<lambda>c. []), faults = []\<rparr>)) ''categories'' = seeded
   \<and> colls (snd (initializeCategories
        \<lparr>colls = (\<lambda>c. [(''crepe'', [(''name'', JStr ''Galette''), (''order'', JNum 9)])]), faults = []\<rparr>))
       = (\<lambda>c. [(''crepe'', [(''name'', JStr ''Galette''), (''order'', JNum 9)])])"
  using initializeCategories_seeds_once [of "\<lparr>colls = (\<lambda>c. []), faults = []\<rparr>"]
    initializeCategories_seeds_once
      [of "\<lparr>colls = (\<lambda>c. [(''crepe'', [(''name'', JStr ''Galette''), (''order'', JNum 9)])]), faults = []\<rparr>"]
  by simp

section \<open>Partial update of a menu item\<close>

lemma strip_step:
  fixes step :: "string \<Rightarrow> jsobject \<Rightarrow> jsobject"
  defines "step \<equiv> \<lambda>key acc. if obj_get acc key = JUndefined then AList.delete key acc else acc"
  shows "map_of (fold step ks acc) k =
     (if k \<in> set ks \<and> map_of acc k = Some JUndefined then None else map_of acc k)"
proof (induction ks arbitrary: acc)
  case Nil
  then show ?case by simp
next
  case (Cons key ks)
  have one: "map_of (step key acc) k' =
      (if k' = key \<and> map_of acc k' = Some JUndefined then None else map_of acc k')" for k'
    unfolding step_def by (auto simp: obj_get_def AList.delete_conv' split: option.splits)
  show ?case
    by (simp add: Cons.IH one)
qed

lemma map_of_strip_undefined:
  "map_of (strip_undefined ob) k = (if map_of ob k = Some JUndefined then None else map_of ob k)"
proof -
  have "map_of ob k = Some JUndefined \<Longrightarrow> k \<in> set (map fst ob)"
    by (metis map_of_eq_None_iff option.distinct(1) set_map)
  then show ?thesis
    unfolding strip_undefined_def strip_step by auto
qed

lemma strip_undefined_no_undefined: "map_of (strip_undefined ob) k \<noteq> Some JUndefined"
  by (simp add: map_of_strip_undefined)

lemma number_to_string_undefined [simp]: "number_to_string v = JUndefined \<longleftrightarrow> v = JUndefined"
  by (cases v) (simp_all add: number_to_string_def)






section \<open>Status updates (PATCH /api/orders/:id)\<close>

lemma users_wf_initial: "users_wf (initial_memory hash now)"
  by (simp add: users_wf_def user_entry_ok_def initial_memory_def obj_get_def)

lemma list_all_update:
  "list_all P al \<Longrightarrow> P (k, v) \<Longrightarrow> list_all P (AList.update k v al)"
  by (induction al) auto

lemma user_entry_ok_mono: "user_entry_ok c e \<Longrightarrow> c \<le> c' \<Longrightarrow> user_entry_ok c' e"
  by (cases "fst e") (auto simp: user_entry_ok_def)

lemma users_wf_createUser:
  assumes "users_wf mem"
  shows "users_wf (snd (createUser ins now mem))"
proof -
  let ?c = "userIdCounter mem"
  have c: "1 \<le> ?c" and old: "list_all (user_entry_ok ?c) (users mem)"
    using assms by (simp_all add: users_wf_def)
  have "list_all (user_entry_ok (?c + 1)) (users mem)"
    using old user_entry_ok_mono [of ?c _ "?c + 1"] by (auto simp: list_all_iff)
  moreover have "user_entry_ok (?c + 1) (JNum ?c, fst (createUser ins now mem))"
    using c by (simp add: user_entry_ok_def createUser_def Let_def obj_get_def)
  ultimately have "list_all (user_entry_ok (?c + 1)) (AList.update (JNum ?c) (fst (createUser ins now mem)) (users mem))"
    by (rule list_all_update)
  with c show ?thesis
    by (simp add: users_wf_def createUser_def Let_def)
qed

lemma users_wf_id:
  assumes "users_wf mem" "getUserById mem sid = Some user"
  shows "\<exists>n. obj_get user ''id'' = JNum n \<and> 1 \<le> n"
proof -
  have "(sid, user) \<in> set (users mem)"
    using assms(2) by (simp add: getUserById_def map_of_SomeD)
  then have "user_entry_ok (userIdCounter mem) (sid, user)"
    using assms(1) by (auto simp: users_wf_def list_all_iff)
  then show ?thesis
    by (cases sid) (auto simp: user_entry_ok_def)
qed

lemma order_full_fields:
  assumes "order_full i d = Inr ord"
  shows "obj_get ord ''id'' = JStr i"
    and "obj_get ord ''status'' = js_or (obj_get d ''status'') (JStr ''pending'')"
    and "obj_get ord ''livreurId'' = js_or (obj_get d ''livreurId'') JNull"
    and "\<exists>c. toDate_or_new (obj_get d ''createdAt'') = Inr c \<and> obj_get ord ''createdAt'' = c"
    and "\<exists>c. toDate_or_new (obj_get d ''updatedAt'') = Inr c \<and> obj_get ord ''updatedAt'' = c"
  using assms
  by (auto simp: order_full_def order_of_doc_def obj_get_def split: sum.splits)

lemma updateOrder_no_throw: "\<exists>r. fst (updateOrder i updates now db) = Inr r"
  by (simp add: updateOrder_eq getOrder_eq split: option.splits)

lemma updateOrder_colls:
  "colls (snd (updateOrder i updates now db)) = colls db
   \<or> (\<exists>d. map_of (colls db ''orders'') i = Some d
        \<and> colls (snd (updateOrder i updates now db)) =
            (colls db)(''orders'' := AList.update i
               (AList.merge d (strip_undefined (AList.update ''updatedAt'' (JTimestamp now) updates)))
               (colls db ''orders'')))"
  by (simp add: updateOrder_eq getOrder_eq split: option.splits)

lemma getOrder_found: "getOrder i db = (Inr (found_order i db), advance db)"
  by (simp add: getOrder_eq found_order_def)

lemma bind_no_throw: "fst (m db) = Inr r \<Longrightarrow> bind m f db = f r (snd (m db))"
  by (cases "m db") (simp add: bind_def)

lemma patch_colls:
  "colls (snd (patch_api_orders_id mem sid i body now now' db)) = colls db
   \<or> (\<exists>user order d.
         getUserById mem sid = Some user
       \<and> (obj_get user ''role'' = JStr ''livreur'' \<or> obj_get user ''role'' = JStr ''owner'')
       \<and> found_order i db = Some order
       \<and> map_of (colls db ''orders'') i = Some d
       \<and> colls (snd (patch_api_orders_id mem sid i body now now' db)) =
            (colls db)(''orders'' := AList.update i
               (AList.merge d (strip_undefined
                  (AList.update ''updatedAt'' (JTimestamp now') (order_updates user order body now))))
               (colls db ''orders'')))"
proof (cases "getUserById mem sid")
  case None
  then show ?thesis
    by (simp add: patch_api_orders_id_def try_catch_def ret_def)
next
  case (Some user)
  show ?thesis
  proof (cases "found_order i db")
    case None
    with Some show ?thesis
      by (simp add: patch_api_orders_id_def try_catch_def ret_def bind_def getOrder_found)
  next
    case found: (Some order)
    show ?thesis
    proof (cases "obj_get user ''role'' = JStr ''livreur'' \<or> obj_get user ''role'' = JStr ''owner''")
      case False
      with Some found show ?thesis
        by (simp add: patch_api_orders_id_def try_catch_def ret_def bind_def getOrder_found)
    next
      case True
      let ?U = "order_updates user order body now"
      obtain r db2 where u: "updateOrder i ?U now' (advance db) = (Inr r, db2)"
        using updateOrder_no_throw [of i ?U now' "advance db"] by (metis prod.collapse)
      have st: "snd (patch_api_orders_id mem sid i body now now' db) = snd (updateOrder i ?U now' (advance db))"
        using Some found True
        by (simp add: patch_api_orders_id_def try_catch_def ret_def bind_def getOrder_found u)
      from updateOrder_colls [of i ?U now' "advance db"] show ?thesis
      proof
        assume "colls (snd (updateOrder i ?U now' (advance db))) = colls (advance db)"
        with st show ?thesis by simp
      next
        assume "\<exists>d. map_of (colls (advance db) ''orders'') i = Some d
          \<and> colls (snd (updateOrder i ?U now' (advance db))) =
            (colls (advance db))(''orders'' := AList.update i
               (AList.merge d (strip_undefined (AList.update ''updatedAt'' (JTimestamp now') ?U)))
               (colls (advance db) ''orders''))"
        with st Some found True show ?thesis by auto
      qed
    qed
  qed
qed

lemma obj_get_merge:
  "obj_get (AList.merge d u) k = (case map_of u k of None \<Rightarrow> obj_get d k | Some v \<Rightarrow> v)"
  by (simp add: obj_get_def AList.merge_conv' map_add_def split: option.splits)

lemma order_updates_livreurId:
  "truthy (obj_get order ''livreurId'') \<Longrightarrow> map_of (order_updates user order body now) ''livreurId'' = None"
  by (simp add: order_updates_def Let_def)

lemma found_order_doc:
  assumes "found_order i db = Some order"
  shows "\<exists>d. map_of (colls db ''orders'') i = Some d \<and> order_full i d = Inr order"
  using assms
  by (auto simp: found_order_def or_none_def split: if_splits option.splits sum.splits)

lemma patch_keeps_livreurId:
  assumes d: "map_of (colls db ''orders'') i = Some d" and set: "truthy (obj_get d ''livreurId'')"
  shows "\<exists>d'. map_of (colls (snd (patch_api_orders_id mem sid i body now now' db)) ''orders'') i = Some d'
            \<and> map_of d' ''livreurId'' = map_of d ''livreurId''"
  using patch_colls [of mem sid i body now now' db]
proof
  assume "colls (snd (patch_api_orders_id mem sid i body now now' db)) = colls db"
  with d show ?thesis by simp
next
  assume "\<exists>user order d.
         getUserById mem sid = Some user
       \<and> (obj_get user ''role'' = JStr ''livreur'' \<or> obj_get user ''role'' = JStr ''owner'')
       \<and> found_order i db = Some order
       \<and> map_of (colls db ''orders'') i = Some d
       \<and> colls (snd (patch_api_orders_id mem sid i body now now' db)) =
            (colls db)(''orders'' := AList.update i
               (AList.merge d (strip_undefined
                  (AList.update ''updatedAt'' (JTimestamp now') (order_updates user order body now))))
               (colls db ''orders''))"
  then obtain user order where found: "found_order i db = Some order"
    and c: "colls (snd (patch_api_orders_id mem sid i body now now' db)) =
            (colls db)(''orders'' := AList.update i
               (AList.merge d (strip_undefined
                  (AList.update ''updatedAt'' (JTimestamp now') (order_updates user order body now))))
               (colls db ''orders''))"
    using d by auto
  from found_order_doc [OF found] d have "order_full i d = Inr order" by simp
  then have "obj_get order ''livreurId'' = js_or (obj_get d ''livreurId'') JNull"
    by (rule order_full_fields)
  with set have "truthy (obj_get order ''livreurId'')" by (simp add: js_or_def)
  then have "map_of (order_updates user order body now) ''livreurId'' = None"
    by (rule order_updates_livreurId)
  then have "map_of (strip_undefined
                  (AList.update ''updatedAt'' (JTimestamp now') (order_updates user order body now))) ''livreurId'' = None"
    by (simp add: map_of_strip_undefined AList.update_conv')
  with c show ?thesis
    by (simp add: AList.update_conv' AList.merge_conv' map_add_def)
qed

text \<open>
  C3. A status update by a user whose role is neither courier nor owner writes
  nothing: every collection is what it was, whatever the body and whatever the store
  does; and when the order is found the answer is the 403 "Not authorized".
\<close>

theorem patch_forbidden_role_writes_nothing:
  assumes "getUserById mem sid = Some user"
    and "obj_get user ''role'' \<noteq> JStr ''livreur''" and "obj_get user ''role'' \<noteq> JStr ''owner''"
  shows "colls (snd (patch_api_orders_id mem sid i body now now' db)) = colls db
     \<and> (\<forall>ord. fst (getOrder i db) = Inr (Some ord) \<longrightarrow>
           fst (patch_api_orders_id mem sid i body now now' db)
             = Inr (Response 403 (error_body ''Not authorized to update orders'')))"
  using assms
  by (auto simp: patch_api_orders_id_def try_catch_def ret_def bind_def getOrder_found
      split: option.splits)

theorem patch_forbidden_role_writes_nothing_witness:
  "getUserById demo_memory (JNum 1) = Some (demo_user 1 ''client'')
   \<and> colls (snd (patch_api_orders_id demo_memory (JNum 1) ''O1'' [(''status'', JStr ''confirmed'')] 400 401 demo_store))
       = colls demo_store
   \<and> fst (patch_api_orders_id demo_memory (JNum 1) ''O1'' [(''status'', JStr ''confirmed'')] 400 401 demo_store)
       = Inr (Response 403 (error_body ''Not authorized to update orders''))"
proof -
  have u: "getUserById demo_memory (JNum 1) = Some (demo_user 1 ''client'')"
    by (simp add: getUserById_def demo_memory_def)
  have r: "obj_get (demo_user 1 ''client'') ''role'' \<noteq> JStr ''livreur''"
          "obj_get (demo_user 1 ''client'') ''role'' \<noteq> JStr ''owner''"
    by (simp_all add: demo_user_def obj_get_def)
  have "\<exists>ord. fst (getOrder ''O1'' demo_store) = Inr (Some ord)"
    by (simp add: getOrder_eq next_fault_def demo_store_def demo_order_def order_full_def
        order_of_doc_def or_none_def obj_get_def js_or_def)
  then obtain ord where ord: "fst (getOrder ''O1'' demo_store) = Inr (Some ord)"
    by blast
  from patch_forbidden_role_writes_nothing
         [OF u r, of "''O1''" "[(''status'', JStr ''confirmed'')]" 400 401 demo_store] u ord
  show ?thesis by blast
qed

lemma claim_flow:
  assumes user: "getUserById mem sid = Some user" and wf: "users_wf mem"
    and role: "obj_get user ''role'' = JStr ''livreur''"
    and body: "obj_get body ''status'' = JStr ''confirmed''"
    and nf: "faults db = []"
    and ord: "fst (getOrder i db) = Inr (Some ord)" and un: "obj_get ord ''livreurId'' = JNull"
  shows "\<exists>ord' db'. patch_api_orders_id mem sid i body now now' db = (Inr (Response 200 (JObj ord')), db')
     \<and> obj_get ord' ''status'' = JStr ''confirmed''
     \<and> obj_get ord' ''livreurId'' = obj_get user ''id''
     \<and> obj_get user ''id'' \<noteq> JNull
     \<and> fst (getOrder i db') = Inr (Some ord')"
proof -
  obtain n where n: "obj_get user ''id'' = JNum n" "1 \<le> n"
    using users_wf_id [OF wf user] by blast
  have found: "found_order i db = Some ord"
    using ord by (simp add: getOrder_found)
  then obtain d where d: "map_of (colls db ''orders'') i = Some d" and full: "order_full i d = Inr ord"
    using found_order_doc by blast
  obtain c where c: "toDate_or_new (obj_get d ''createdAt'') = Inr c"
    using order_full_fields(4) [OF full] by blast
  have U: "order_updates user ord body now =
      [(''updatedAt'', JDate now), (''status'', JStr ''confirmed''), (''livreurId'', JNum n)]"
    using role body un n by (simp add: order_updates_def Let_def)
  let ?P = "[(''updatedAt'', JTimestamp now'), (''status'', JStr ''confirmed''), (''livreurId'', JNum n)]"
  have P: "strip_undefined (AList.update ''updatedAt'' (JTimestamp now') (order_updates user ord body now)) = ?P"
    by (simp add: U strip_undefined_def obj_get_def)
  let ?d' = "AList.merge d ?P"
  define d' where "d' = AList.merge d ?P"
  have g: "obj_get d' ''createdAt'' = obj_get d ''createdAt''" "obj_get d' ''updatedAt'' = JTimestamp now'"
      "obj_get d' ''status'' = JStr ''confirmed''" "obj_get d' ''livreurId'' = JNum n"
    unfolding d'_def obj_get_merge by simp_all
  have "\<exists>ord'. order_full i d' = Inr ord' \<and> obj_get ord' ''status'' = JStr ''confirmed''
      \<and> obj_get ord' ''livreurId'' = JNum n"
    using c n(2) by (simp add: order_full_def order_of_doc_def g js_or_def) (simp add: obj_get_def)
  then obtain ord' where o': "order_full i ?d' = Inr ord'" "obj_get ord' ''status'' = JStr ''confirmed''"
      "obj_get ord' ''livreurId'' = JNum n"
    unfolding d'_def by blast
  let ?db' = "db\<lparr>colls := (colls db)(''orders'' := AList.update i ?d' (colls db ''orders''))\<rparr>"
  have "patch_api_orders_id mem sid i body now now' db = (Inr (Response 200 (JObj ord')), ?db')"
    using user role nf d full P o'(1)
    by (simp add: patch_api_orders_id_def try_catch_def ret_def bind_def
        updateOrder_eq getOrder_eq AList.update_conv' or_none_def)
  moreover have "fst (getOrder i ?db') = Inr (Some ord')"
    using nf o'(1) by (simp add: getOrder_eq AList.update_conv' or_none_def)
  ultimately show ?thesis using o' n by auto
qed

lemma patch_all_keeps_livreurId:
  assumes "map_of (colls db ''orders'') i = Some d" and "truthy (obj_get d ''livreurId'')"
  shows "\<exists>d'. map_of (colls (patch_all rs i db) ''orders'') i = Some d'
            \<and> map_of d' ''livreurId'' = map_of d ''livreurId''"
  using assms
proof (induction rs arbitrary: db d)
  case Nil
  then show ?case by simp
next
  case (Cons r rs)
  obtain mem sid body now now' where r: "r = (mem, sid, body, now, now')"
    by (cases r) auto
  let ?db1 = "snd (patch_api_orders_id mem sid i body now now' db)"
  obtain d1 where d1: "map_of (colls ?db1 ''orders'') i = Some d1"
      and same: "map_of d1 ''livreurId'' = map_of d ''livreurId''"
    using patch_keeps_livreurId [OF Cons.prems] by blast
  from same Cons.prems(2) have "truthy (obj_get d1 ''livreurId'')"
    by (simp add: obj_get_def)
  from Cons.IH [OF d1 this] same r show ?case by simp
qed

text \<open>
  C2. When a courier asks for status "confirmed" on an order that \<^verbatim>\<open>getOrder\<close>
  reports with a null \<^verbatim>\<open>livreurId\<close>, and the store answers, the handler returns
  the order with status "confirmed" and the courier's id as \<^verbatim>\<open>livreurId\<close> (ids are
  never null: they come from the counter), and that is what is stored. And once a
  document holds a \<^verbatim>\<open>livreurId\<close>, no sequence of status updates through the handler,
  by any user, with any body and under any schedule of failures, changes it.
\<close>

theorem courier_claim_assigns_and_sticks:
  "(users_wf mem \<and> getUserById mem sid = Some user
      \<and> obj_get user ''role'' = JStr ''livreur'' \<and> obj_get body ''status'' = JStr ''confirmed''
      \<and> faults db = [] \<and> fst (getOrder i db) = Inr (Some ord) \<and> obj_get ord ''livreurId'' = JNull
    \<longrightarrow> (\<exists>ord' db'.
           patch_api_orders_id mem sid i body now now' db = (Inr (Response 200 (JObj ord')), db')
         \<and> obj_get ord' ''status'' = JStr ''confirmed''
         \<and> obj_get ord' ''livreurId'' = obj_get user ''id''
         \<and> obj_get user ''id'' \<noteq> JNull
         \<and> fst (getOrder i db') = Inr (Some ord')))
   \<and> (map_of (colls db ''orders'') i = Some d \<and> truthy (obj_get d ''livreurId'')
    \<longrightarrow> (\<exists>d'. map_of (colls (patch_all rs i db) ''orders'') i = Some d'
             \<and> map_of d' ''livreurId'' = map_of d ''livreurId''))"
  using claim_flow [of mem sid user body db i ord now now'] patch_all_keeps_livreurId [of db i d rs]
  by blast

lemma users_wf_demo: "users_wf demo_memory"
  by (simp add: users_wf_def user_entry_ok_def demo_memory_def demo_user_def obj_get_def)

theorem courier_claim_assigns_and_sticks_witness:
  "(\<exists>ord' db'.
       patch_api_orders_id demo_memory (JNum 2) ''O1'' [(''status'', JStr ''confirmed'')] 400 401 demo_store
         = (Inr (Response 200 (JObj ord')), db')
     \<and> obj_get ord' ''status'' = JStr ''confirmed'' \<and> obj_get ord' ''livreurId'' = JNum 2)
   \<and> (\<exists>d'. map_of (colls (patch_all
               [(demo_memory, JNum 3, [(''status'', JStr ''confirmed'')], 400, 401),
                (demo_memory, JNum 4, [(''status'', JStr ''delivered'')], 500, 501)] ''O2'' demo_store)
             ''orders'') ''O2'' = Some d'
          \<and> map_of d' ''livreurId'' = Some (JNum 2))"
proof -
  let ?body = "[(''status'', JStr ''confirmed'')]"
  let ?rs = "[(demo_memory, JNum 3, [(''status'', JStr ''confirmed'')], 400, 401),
              (demo_memory, JNum 4, [(''status'', JStr ''delivered'')], 500, 501)]"
  have u: "getUserById demo_memory (JNum 2) = Some (demo_user 2 ''livreur'')"
    by (simp add: getUserById_def demo_memory_def)
  have r: "obj_get (demo_user 2 ''livreur'') ''role'' = JStr ''livreur''"
          "obj_get (demo_user 2 ''livreur'') ''id'' = JNum 2"
          "obj_get ?body ''status'' = JStr ''confirmed''"
    by (simp_all add: demo_user_def obj_get_def)
  have nf: "faults demo_store = []" by (simp add: demo_store_def)
  have "\<exists>ord. fst (getOrder ''O1'' demo_store) = Inr (Some ord) \<and> obj_get ord ''livreurId'' = JNull"
    by (simp add: getOrder_eq next_fault_def demo_store_def demo_order_def order_full_def
        order_of_doc_def or_none_def obj_get_def js_or_def)
  then obtain ord where ord: "fst (getOrder ''O1'' demo_store) = Inr (Some ord)"
      "obj_get ord ''livreurId'' = JNull"
    by blast
  have d: "map_of (colls demo_store ''orders'') ''O2'' = Some (demo_order (JStr ''pending'') (JNum 2) 200)"
     "truthy (obj_get (demo_order (JStr ''pending'') (JNum 2) 200) ''livreurId'')"
     "map_of (demo_order (JStr ''pending'') (JNum 2) 200) ''livreurId'' = Some (JNum 2)"
    by (simp_all add: demo_store_def demo_order_def obj_get_def)
  have A: "\<exists>ord' db'.
       patch_api_orders_id demo_memory (JNum 2) ''O1'' ?body 400 401 demo_store
         = (Inr (Response 200 (JObj ord')), db')
     \<and> obj_get ord' ''status'' = JStr ''confirmed'' \<and> obj_get ord' ''livreurId'' = JNum 2"
    using courier_claim_assigns_and_sticks
      [of demo_memory "JNum 2" "demo_user 2 ''livreur''" ?body demo_store "''O1''" ord 400 401,
       THEN conjunct1, rule_format]
      users_wf_demo u r nf ord
    by auto
  have B: "\<exists>d'. map_of (colls (patch_all ?rs ''O2'' demo_store) ''orders'') ''O2'' = Some d'
          \<and> map_of d' ''livreurId'' = Some (JNum 2)"
    using courier_claim_assigns_and_sticks
      [of _ _ _ _ demo_store "''O2''" _ _ _ "demo_order (JStr ''pending'') (JNum 2) 200" ?rs,
       THEN conjunct2, rule_format]
      d
    by auto
  from A B show ?thesis by (rule conjI)
qed

section \<open>The courier's view (GET /api/orders)\<close>

lemma in_set_update:
  "(a, b) \<in> set (AList.update k v al) \<Longrightarrow> (a, b) = (k, v) \<or> (a, b) \<in> set al"
  by (induction al) (auto split: if_splits)

lemma map_of_rev_distinct:
  assumes "distinct (map fst xs)"
  shows "map_of (rev xs) = map_of xs"
proof -
  have "distinct (map fst (rev xs))"
    using assms by (simp add: rev_map [symmetric])
  then show ?thesis
    using assms by (simp add: map_of_inject_set)
qed

lemma map_of_fold_update:
  "map_of (fold (\<lambda>ob m. AList.update (key ob) ob m) xs m0) =
     map_of m0 ++ map_of (rev (map (\<lambda>ob. (key ob, ob)) xs))"
proof (induction xs arbitrary: m0)
  case Nil
  then show ?case by simp
next
  case (Cons x xs)
  let ?f = "\<lambda>ob m. AList.update (key ob) ob m"
  let ?R = "map_of (rev (map (\<lambda>ob. (key ob, ob)) xs))"
  have "map_of (fold ?f (x # xs) m0) = map_of (AList.update (key x) x m0) ++ ?R"
    by (simp add: Cons.IH)
  also have "\<dots> = (map_of m0)(key x \<mapsto> x) ++ ?R"
    by (simp only: AList.update_conv')
  also have "\<dots> = map_of m0 ++ (map_of [(key x, x)] ++ ?R)"
    by (rule ext) (simp add: map_add_def split: option.splits)
  also have "\<dots> = map_of m0 ++ map_of (rev (map (\<lambda>ob. (key ob, ob)) (x # xs)))"
    by (simp only: list.map rev.simps map_of_append)
  finally show ?case .
qed

lemma distinct_fold_update:
  "distinct (map fst m0) \<Longrightarrow> distinct (map fst (fold (\<lambda>ob m. AList.update (key ob) ob m) xs m0))"
  by (induction xs arbitrary: m0) (simp_all add: AList.distinct_update)

lemma keyed_fold_update:
  "\<forall>(k, ob) \<in> set m0. k = key ob \<Longrightarrow>
   \<forall>(k, ob) \<in> set (fold (\<lambda>ob m. AList.update (key ob) ob m) xs m0). k = key ob"
proof (induction xs arbitrary: m0)
  case Nil
  then show ?case by simp
next
  case (Cons x xs)
  have "\<forall>(k, ob) \<in> set (AList.update (key x) x m0). k = key ob"
    using Cons.prems in_set_update [of _ _ "key x" x m0] by fastforce
  from Cons.IH [OF this] show ?case by simp
qed

lemma map_of_keyed:
  assumes "distinct (map key xs)"
  shows "map_of (map (\<lambda>ob. (key ob, ob)) xs) k = Some ob \<longleftrightarrow> ob \<in> set xs \<and> key ob = k"
proof -
  have d: "distinct (map fst (map (\<lambda>ob. (key ob, ob)) xs))"
    using assms by (simp add: comp_def)
  show ?thesis
    using map_of_eq_Some_iff [OF d, of k ob] by auto
qed

lemma dedup_view:
  fixes key :: "'a \<Rightarrow> 'k"
  assumes dp: "distinct (map key p)" and da: "distinct (map key a)"
  defines "view \<equiv> map snd (fold (\<lambda>ob m. AList.update (key ob) ob m) (p @ a) [])"
  shows "distinct (map key view)"
    and "set view = set a \<union> {ob \<in> set p. key ob \<notin> key ` set a}"
proof -
  let ?al = "fold (\<lambda>ob m. AList.update (key ob) ob m) (p @ a) []"
  let ?kv = "\<lambda>ob. (key ob, ob)"
  have dist: "distinct (map fst ?al)"
    by (rule distinct_fold_update) simp
  have keyed: "\<forall>(k, ob) \<in> set ?al. k = key ob"
    by (rule keyed_fold_update) simp
  then have "map key view = map fst ?al"
    unfolding view_def by (auto simp: comp_def)
  with dist show "distinct (map key view)" by simp
  have dkp: "distinct (map fst (map ?kv p))" and dka: "distinct (map fst (map ?kv a))"
    using dp da by (simp_all add: comp_def)
  have "map_of ?al = map_of (rev (map ?kv p)) ++ map_of (rev (map ?kv a))"
    by (simp add: map_of_fold_update)
  then have M: "map_of ?al = map_of (map ?kv p) ++ map_of (map ?kv a)"
    by (simp only: map_of_rev_distinct [OF dkp] map_of_rev_distinct [OF dka])
  have "set view = ran (map_of ?al)"
    unfolding view_def using dist by (simp add: ran_distinct)
  also have "\<dots> = ran (map_of (map ?kv p) ++ map_of (map ?kv a))"
    by (simp only: M)
  also have "\<dots> = set a \<union> {ob \<in> set p. key ob \<notin> key ` set a}"
  proof (rule set_eqI)
    fix ob
    have "ob \<in> ran (map_of (map ?kv p) ++ map_of (map ?kv a)) \<longleftrightarrow>
          (\<exists>k. (map_of (map ?kv p) ++ map_of (map ?kv a)) k = Some ob)"
      by (simp add: ran_def)
    also have "\<dots> \<longleftrightarrow> (\<exists>k. map_of (map ?kv a) k = Some ob
                     \<or> (map_of (map ?kv a) k = None \<and> map_of (map ?kv p) k = Some ob))"
      by (auto simp: map_add_Some_iff)
    also have "\<dots> \<longleftrightarrow> ob \<in> set a \<or> (ob \<in> set p \<and> key ob \<notin> key ` set a)"
      using map_of_keyed [OF da] map_of_keyed [OF dp]
      by (auto simp: map_of_eq_None_iff image_image)
    finally show "ob \<in> ran (map_of (map ?kv p) ++ map_of (map ?kv a))
        \<longleftrightarrow> ob \<in> set a \<union> {ob \<in> set p. key ob \<notin> key ` set a}"
      by simp
  qed
  finally show "set view = set a \<union> {ob \<in> set p. key ob \<notin> key ` set a}" .
qed

lemma distinct_map_insort_key:
  "distinct (map f (insort_key k x xs)) \<longleftrightarrow> distinct (map f (x # xs))"
  by (induction xs) (auto simp: set_insort_key)

lemma distinct_map_sort_key:
  "distinct (map f (sort_key k xs)) \<longleftrightarrow> distinct (map f xs)"
  by (induction xs) (simp_all add: distinct_map_insort_key)

lemma set_run_query:
  "set (run_query cs coll) = {(i, d) \<in> set coll. list_all (matches d) cs}"
  by (auto simp: run_query_def Let_def split: option.splits prod.splits direction.splits)

lemma distinct_run_query:
  "distinct (map fst coll) \<Longrightarrow> distinct (map fst (run_query cs coll))"
  by (auto simp: run_query_def Let_def distinct_map_sort_key rev_map [symmetric] distinct_map_filter
      split: option.splits prod.splits direction.splits)

lemma map_throwing_all:
  "\<forall>x \<in> set xs. f x = Inr (g x) \<Longrightarrow> map_throwing f xs = Inr (map g xs)"
  by (induction xs) simp_all

lemma order_of_doc_wf:
  assumes "is_timestamp (obj_get d ''createdAt'')" "is_timestamp (obj_get d ''updatedAt'')"
  shows "\<exists>ob. order_of_doc i d u s l = Inr ob \<and> obj_get ob ''id'' = JStr i
           \<and> obj_get ob ''userId'' = u \<and> obj_get ob ''status'' = s \<and> obj_get ob ''livreurId'' = l"
  using assms
  by (cases "obj_get d ''createdAt''"; cases "obj_get d ''updatedAt''")
     (simp_all add: is_timestamp_def order_of_doc_def, simp add: obj_get_def)

lemma order_of_doc_id:
  "order_of_doc i d u s l = Inr ob \<Longrightarrow> obj_get ob ''id'' = JStr i"
  by (auto simp: order_of_doc_def obj_get_def split: sum.splits)

lemma get_api_orders_livreur:
  assumes "getUserById mem sid = Some user" "obj_get user ''role'' = JStr ''livreur''" "faults db = []"
  shows "get_api_orders mem sid db =
     (Inr (Response 200 (JArr (map JObj (map snd
        (fold (\<lambda>order orderMap. AList.update (obj_get order ''id'') order orderMap)
           (or_empty (map_throwing (\<lambda>(i, d). order_pending i d)
               (run_query [WhereEq ''status'' (JStr ''pending''), OrderBy ''createdAt'' Desc] (colls db ''orders'')))
            @ or_empty (map_throwing (\<lambda>(i, d). order_by_livreur i d)
               (run_query [WhereEq ''livreurId'' (obj_get user ''id''), OrderBy ''createdAt'' Desc] (colls db ''orders''))))
           []))))), db)"
  using assms
  by (simp add: get_api_orders_def try_catch_def bind_def ret_def getPendingOrders_eq getOrdersByLivreur_eq)

lemma wf_doc:
  assumes "orders_wf coll" "(i, d) \<in> set coll"
  shows "is_timestamp (obj_get d ''createdAt'')" "is_timestamp (obj_get d ''updatedAt'')"
    "map_of d ''createdAt'' \<noteq> None" "map_of coll i = Some d"
proof -
  have t: "is_timestamp (obj_get d ''createdAt'') \<and> is_timestamp (obj_get d ''updatedAt'')"
    using assms unfolding orders_wf_def list_all_iff by blast
  then show "is_timestamp (obj_get d ''createdAt'')" "is_timestamp (obj_get d ''updatedAt'')"
    by simp_all
  from t show "map_of d ''createdAt'' \<noteq> None"
    by (cases "map_of d ''createdAt''") (simp_all add: is_timestamp_def obj_get_def)
  have "distinct (map fst coll)" using assms(1) by (simp add: orders_wf_def)
  then show "map_of coll i = Some d" using assms(2) by simp
qed

lemma livreur_view_set:
  fixes coll :: collection and uid :: jsval
  assumes wf: "orders_wf coll"
  defines "P \<equiv> run_query [WhereEq ''status'' (JStr ''pending''), OrderBy ''createdAt'' Desc] coll"
    and "A \<equiv> run_query [WhereEq ''livreurId'' uid, OrderBy ''createdAt'' Desc] coll"
  defines "view \<equiv> map snd
        (fold (\<lambda>order orderMap. AList.update (obj_get order ''id'') order orderMap)
           (or_empty (map_throwing (\<lambda>(i, d). order_pending i d) P)
            @ or_empty (map_throwing (\<lambda>(i, d). order_by_livreur i d) A)) [])"
  shows "distinct (map (\<lambda>ob. obj_get ob ''id'') view)"
    and "set view = {ob. \<exists>i d. map_of coll i = Some d \<and>
            (if map_of d ''livreurId'' = Some uid then order_by_livreur i d = Inr ob
             else map_of d ''status'' = Some (JStr ''pending'') \<and> order_pending i d = Inr ob)}"
proof -
  let ?key = "\<lambda>ob. obj_get ob ''id''"
  let ?pv = "\<lambda>x. projr (order_pending (fst x) (snd x))"
  let ?av = "\<lambda>x. projr (order_by_livreur (fst x) (snd x))"
  have dist: "distinct (map fst coll)" using wf by (simp add: orders_wf_def)
  have setP: "(i, d) \<in> set P \<longleftrightarrow> (i, d) \<in> set coll \<and> map_of d ''status'' = Some (JStr ''pending'')" for i d
    unfolding P_def set_run_query using wf_doc(3) [OF wf] by auto
  have setA: "(i, d) \<in> set A \<longleftrightarrow> (i, d) \<in> set coll \<and> map_of d ''livreurId'' = Some uid" for i d
    unfolding A_def set_run_query using wf_doc(3) [OF wf] by auto
  have pendE: "\<exists>ob. order_pending i d = Inr ob \<and> ?key ob = JStr i" if m: "(i, d) \<in> set coll" for i d
    using order_of_doc_wf [OF wf_doc(1,2) [OF wf m]] unfolding order_pending_def by blast
  have assiE: "\<exists>ob. order_by_livreur i d = Inr ob \<and> ?key ob = JStr i" if m: "(i, d) \<in> set coll" for i d
    using order_of_doc_wf [OF wf_doc(1,2) [OF wf m]] unfolding order_by_livreur_def by blast
  have pendK: "?key (?pv (i, d)) = JStr i" if m: "(i, d) \<in> set coll" for i d
  proof -
    obtain ob where "order_pending i d = Inr ob" "?key ob = JStr i" using pendE [OF m] by blast
    then show ?thesis by simp
  qed
  have assiK: "?key (?av (i, d)) = JStr i" if m: "(i, d) \<in> set coll" for i d
  proof -
    obtain ob where "order_by_livreur i d = Inr ob" "?key ob = JStr i" using assiE [OF m] by blast
    then show ?thesis by simp
  qed
  have "\<forall>x \<in> set P. (case x of (i, d) \<Rightarrow> order_pending i d) = Inr (?pv x)"
  proof
    fix x assume x: "x \<in> set P"
    obtain i d where xd: "x = (i, d)" by (cases x)
    with x setP have "(i, d) \<in> set coll" by simp
    then obtain ob where "order_pending i d = Inr ob" using pendE by blast
    with xd show "(case x of (i, d) \<Rightarrow> order_pending i d) = Inr (?pv x)" by simp
  qed
  then have p: "or_empty (map_throwing (\<lambda>(i, d). order_pending i d) P) = map ?pv P"
    by (simp add: map_throwing_all [where g = ?pv] or_empty_def)
  have "\<forall>x \<in> set A. (case x of (i, d) \<Rightarrow> order_by_livreur i d) = Inr (?av x)"
  proof
    fix x assume x: "x \<in> set A"
    obtain i d where xd: "x = (i, d)" by (cases x)
    with x setA have "(i, d) \<in> set coll" by simp
    then obtain ob where "order_by_livreur i d = Inr ob" using assiE by blast
    with xd show "(case x of (i, d) \<Rightarrow> order_by_livreur i d) = Inr (?av x)" by simp
  qed
  then have a: "or_empty (map_throwing (\<lambda>(i, d). order_by_livreur i d) A) = map ?av A"
    by (simp add: map_throwing_all [where g = ?av] or_empty_def)
  have keyP: "?key (?pv x) = JStr (fst x)" if "x \<in> set P" for x
  proof -
    obtain i d where x: "x = (i, d)" by (cases x)
    with that setP have "(i, d) \<in> set coll" by simp
    from pendK [OF this] x show ?thesis by simp
  qed
  have keyA: "?key (?av x) = JStr (fst x)" if "x \<in> set A" for x
  proof -
    obtain i d where x: "x = (i, d)" by (cases x)
    with that setA have "(i, d) \<in> set coll" by simp
    from assiK [OF this] x show ?thesis by simp
  qed
  have kp: "map ?key (map ?pv P) = map (\<lambda>x. JStr (fst x)) P"
    using keyP by simp
  have ka: "map ?key (map ?av A) = map (\<lambda>x. JStr (fst x)) A"
    using keyA by simp
  have dP: "distinct (map fst P)" and dA: "distinct (map fst A)"
    unfolding P_def A_def using dist by (simp_all add: distinct_run_query)
  have dp: "distinct (map ?key (map ?pv P))"
    unfolding kp using dP by (simp add: distinct_map inj_on_def)
  have da: "distinct (map ?key (map ?av A))"
    unfolding ka using dA by (simp add: distinct_map inj_on_def)
  have v: "view = map snd (fold (\<lambda>ob m. AList.update (?key ob) ob m) (map ?pv P @ map ?av A) [])"
    unfolding view_def p a ..
  show "distinct (map ?key view)"
    unfolding v by (rule dedup_view(1) [OF dp da])
  have inA: "JStr i \<in> ?key ` set (map ?av A) \<longleftrightarrow> (\<exists>d. (i, d) \<in> set A)" for i
  proof
    assume "JStr i \<in> ?key ` set (map ?av A)"
    then obtain x where x: "x \<in> set A" "JStr i = ?key (?av x)"
      by (auto simp only: set_map image_iff)
    from keyA [OF x(1)] x(2) have "fst x = i" by simp
    then have "x = (i, snd x)" by (cases x) simp
    with x(1) have "(i, snd x) \<in> set A" by (simp only:)
    then show "\<exists>d. (i, d) \<in> set A" ..
  next
    assume "\<exists>d. (i, d) \<in> set A"
    then obtain d where d: "(i, d) \<in> set A" ..
    from keyA [OF d] have k: "?key (?av (i, d)) = JStr i" by simp
    from d have "?av (i, d) \<in> set (map ?av A)" by (simp only: set_map) (rule imageI)
    then have "?key (?av (i, d)) \<in> ?key ` set (map ?av A)" by (rule imageI)
    then show "JStr i \<in> ?key ` set (map ?av A)" unfolding k .
  qed
  have L: "set view = set (map ?av A) \<union> {ob \<in> set (map ?pv P). ?key ob \<notin> ?key ` set (map ?av A)}"
    unfolding v by (rule dedup_view(2) [OF dp da])
  have R: "ob \<in> set view \<longleftrightarrow> (\<exists>i d. map_of coll i = Some d \<and>
            (if map_of d ''livreurId'' = Some uid then order_by_livreur i d = Inr ob
             else map_of d ''status'' = Some (JStr ''pending'') \<and> order_pending i d = Inr ob))"
    (is "_ \<longleftrightarrow> ?R") for ob
  proof
    assume "ob \<in> set view"
    then consider (a) "ob \<in> set (map ?av A)"
      | (p) "ob \<in> set (map ?pv P)" "?key ob \<notin> ?key ` set (map ?av A)"
      unfolding L by blast
    then show ?R
    proof cases
      case a
      then obtain x where x: "x \<in> set A" "ob = ?av x"
        by (auto simp only: set_map image_iff)
      obtain i d where xd: "x = (i, d)" by (cases x)
      from x(1) xd setA have c: "(i, d) \<in> set coll" and l: "map_of d ''livreurId'' = Some uid"
        by simp_all
      obtain ob' where o': "order_by_livreur i d = Inr ob'" using assiE [OF c] by blast
      with x(2) xd have "ob = ob'" by simp
      with o' have "order_by_livreur i d = Inr ob" by simp
      with l wf_doc(4) [OF wf c] show ?thesis
        by (intro exI [of _ i] exI [of _ d]) simp
    next
      case p
      then obtain x where x: "x \<in> set P" "ob = ?pv x"
        by (auto simp only: set_map image_iff)
      obtain i d where xd: "x = (i, d)" by (cases x)
      from x(1) xd setP have c: "(i, d) \<in> set coll" and st: "map_of d ''status'' = Some (JStr ''pending'')"
        by simp_all
      obtain ob' where o': "order_pending i d = Inr ob'" "?key ob' = JStr i" using pendE [OF c] by blast
      with x(2) xd have e: "ob = ob'" by simp
      with o' have o: "order_pending i d = Inr ob" "?key ob = JStr i" by simp_all
      from p(2) have "JStr i \<notin> ?key ` set (map ?av A)" unfolding o(2) .
      then have "\<not> (\<exists>d. (i, d) \<in> set A)" unfolding inA [of i] .
      then have "(i, d) \<notin> set A" by blast
      with c setA have "map_of d ''livreurId'' \<noteq> Some uid" by simp
      with o(1) st wf_doc(4) [OF wf c] show ?thesis
        by (intro exI [of _ i] exI [of _ d]) simp
    qed
  next
    assume ?R
    then obtain i d where m: "map_of coll i = Some d"
      and r: "if map_of d ''livreurId'' = Some uid then order_by_livreur i d = Inr ob
             else map_of d ''status'' = Some (JStr ''pending'') \<and> order_pending i d = Inr ob"
      by blast
    from m have c: "(i, d) \<in> set coll" by (rule map_of_SomeD)
    show "ob \<in> set view"
    proof (cases "map_of d ''livreurId'' = Some uid")
      case True
      with c setA have "(i, d) \<in> set A" by simp
      then have "?av (i, d) \<in> set (map ?av A)" by (simp only: set_map) (rule imageI)
      moreover from True r have "order_by_livreur i d = Inr ob" by simp
      then have "?av (i, d) = ob" by simp
      ultimately have "ob \<in> set (map ?av A)" by (simp only:)
      then show ?thesis unfolding L by (rule UnI1)
    next
      case False
      with r have s: "map_of d ''status'' = Some (JStr ''pending'')" and o: "order_pending i d = Inr ob"
        by simp_all
      from s c setP have "(i, d) \<in> set P" by simp
      then have "?pv (i, d) \<in> set (map ?pv P)" by (simp only: set_map) (rule imageI)
      moreover from o have e: "?pv (i, d) = ob" by simp
      ultimately have inP: "ob \<in> set (map ?pv P)" by (simp only:)
      from pendK [OF c] have "?key ob = JStr i" unfolding e .
      then have k: "?key ob = JStr i" .
      have "\<not> (\<exists>d'. (i, d') \<in> set A)"
      proof
        assume "\<exists>d'. (i, d') \<in> set A"
        then obtain d' where "(i, d') \<in> set A" ..
        with setA have c': "(i, d') \<in> set coll" "map_of d' ''livreurId'' = Some uid" by simp_all
        from wf_doc(4) [OF wf c'(1)] m have "d' = d" by simp
        with c'(2) False show False by simp
      qed
      then have "JStr i \<notin> ?key ` set (map ?av A)" unfolding inA [of i] .
      then have "?key ob \<notin> ?key ` set (map ?av A)" unfolding k .
      with inP have "ob \<in> {ob \<in> set (map ?pv P). ?key ob \<notin> ?key ` set (map ?av A)}"
        by (intro CollectI conjI)
      then show ?thesis unfolding L by (rule UnI2)
    qed
  qed
  show "set view = {ob. \<exists>i d. map_of coll i = Some d \<and>
            (if map_of d ''livreurId'' = Some uid then order_by_livreur i d = Inr ob
             else map_of d ''status'' = Some (JStr ''pending'') \<and> order_pending i d = Inr ob)}"
  proof (rule set_eqI)
    fix ob
    show "ob \<in> set view \<longleftrightarrow> ob \<in> {ob. \<exists>i d. map_of coll i = Some d \<and>
            (if map_of d ''livreurId'' = Some uid then order_by_livreur i d = Inr ob
             else map_of d ''status'' = Some (JStr ''pending'') \<and> order_pending i d = Inr ob)}"
      unfolding mem_Collect_eq by (rule R)
  qed
qed

text \<open>
  C1, as the code has it. For a courier, with a store that answers, the handler
  returns one order per identifier, and the orders returned are exactly: every order
  whose \<^verbatim>\<open>livreurId\<close> is the courier's id, in the form \<^verbatim>\<open>getOrdersByLivreur\<close> gives
  it, and every other order whose status is "pending", in the form
  \<^verbatim>\<open>getPendingOrders\<close> gives it (the assigned copy wins when an order is both).
  The pending orders are all of them, whether or not a courier is assigned: a pending
  order assigned to another courier is in the view.
\<close>

theorem livreur_view_is_pending_or_assigned:
  assumes user: "getUserById mem sid = Some user" and role: "obj_get user ''role'' = JStr ''livreur''"
    and nf: "faults db = []" and wf: "orders_wf (colls db ''orders'')"
  shows "\<exists>view. get_api_orders mem sid db = (Inr (Response 200 (JArr (map JObj view))), db)
      \<and> distinct (map (\<lambda>ob. obj_get ob ''id'') view)
      \<and> set view = {ob. \<exists>i d. map_of (colls db ''orders'') i = Some d \<and>
            (if map_of d ''livreurId'' = Some (obj_get user ''id'') then order_by_livreur i d = Inr ob
             else map_of d ''status'' = Some (JStr ''pending'') \<and> order_pending i d = Inr ob)}
      \<and> (\<forall>i. (\<exists>ob \<in> set view. obj_get ob ''id'' = JStr i) \<longleftrightarrow>
              (\<exists>d. map_of (colls db ''orders'') i = Some d \<and>
                 (map_of d ''status'' = Some (JStr ''pending'')
                  \<or> map_of d ''livreurId'' = Some (obj_get user ''id''))))"
proof -
  let ?coll = "colls db ''orders''"
  let ?uid = "obj_get user ''id''"
  let ?view = "map snd
        (fold (\<lambda>order orderMap. AList.update (obj_get order ''id'') order orderMap)
           (or_empty (map_throwing (\<lambda>(i, d). order_pending i d)
               (run_query [WhereEq ''status'' (JStr ''pending''), OrderBy ''createdAt'' Desc] ?coll))
            @ or_empty (map_throwing (\<lambda>(i, d). order_by_livreur i d)
               (run_query [WhereEq ''livreurId'' ?uid, OrderBy ''createdAt'' Desc] ?coll))) [])"
  have r: "get_api_orders mem sid db = (Inr (Response 200 (JArr (map JObj ?view))), db)"
    by (rule get_api_orders_livreur [OF user role nf])
  have d: "distinct (map (\<lambda>ob. obj_get ob ''id'') ?view)"
    by (rule livreur_view_set(1) [OF wf])
  have s: "set ?view = {ob. \<exists>i d. map_of ?coll i = Some d \<and>
            (if map_of d ''livreurId'' = Some ?uid then order_by_livreur i d = Inr ob
             else map_of d ''status'' = Some (JStr ''pending'') \<and> order_pending i d = Inr ob)}"
    by (rule livreur_view_set(2) [OF wf])
  have ids: "(\<exists>ob \<in> set ?view. obj_get ob ''id'' = JStr i) \<longleftrightarrow>
              (\<exists>d. map_of ?coll i = Some d \<and>
                 (map_of d ''status'' = Some (JStr ''pending'') \<or> map_of d ''livreurId'' = Some ?uid))" for i
  proof
    assume "\<exists>ob \<in> set ?view. obj_get ob ''id'' = JStr i"
    then obtain ob where ob: "ob \<in> set ?view" "obj_get ob ''id'' = JStr i" by blast
    from ob(1) obtain j d where m: "map_of ?coll j = Some d"
      and c: "if map_of d ''livreurId'' = Some ?uid then order_by_livreur j d = Inr ob
             else map_of d ''status'' = Some (JStr ''pending'') \<and> order_pending j d = Inr ob"
      unfolding s by blast
    have "obj_get ob ''id'' = JStr j"
    proof (cases "map_of d ''livreurId'' = Some ?uid")
      case True
      with c have "order_by_livreur j d = Inr ob" by simp
      then show ?thesis unfolding order_by_livreur_def by (rule order_of_doc_id)
    next
      case False
      with c have "order_pending j d = Inr ob" by simp
      then show ?thesis unfolding order_pending_def by (rule order_of_doc_id)
    qed
    with ob(2) have "j = i" by simp
    moreover from c have "map_of d ''status'' = Some (JStr ''pending'') \<or> map_of d ''livreurId'' = Some ?uid"
      by (cases "map_of d ''livreurId'' = Some ?uid") simp_all
    ultimately show "\<exists>d. map_of ?coll i = Some d \<and>
        (map_of d ''status'' = Some (JStr ''pending'') \<or> map_of d ''livreurId'' = Some ?uid)"
      using m by blast
  next
    assume "\<exists>d. map_of ?coll i = Some d \<and>
        (map_of d ''status'' = Some (JStr ''pending'') \<or> map_of d ''livreurId'' = Some ?uid)"
    then obtain d where m: "map_of ?coll i = Some d"
      and c: "map_of d ''status'' = Some (JStr ''pending'') \<or> map_of d ''livreurId'' = Some ?uid"
      by blast
    from m have mem: "(i, d) \<in> set ?coll" by (rule map_of_SomeD)
    note t = wf_doc(1,2) [OF wf mem]
    show "\<exists>ob \<in> set ?view. obj_get ob ''id'' = JStr i"
    proof (cases "map_of d ''livreurId'' = Some ?uid")
      case True
      obtain ob where o: "order_by_livreur i d = Inr ob" "obj_get ob ''id'' = JStr i"
        using order_of_doc_wf [OF t] unfolding order_by_livreur_def by blast
      with True m have "ob \<in> set ?view" unfolding s by (intro CollectI exI [of _ i] exI [of _ d]) simp
      with o(2) show ?thesis by blast
    next
      case False
      obtain ob where o: "order_pending i d = Inr ob" "obj_get ob ''id'' = JStr i"
        using order_of_doc_wf [OF t] unfolding order_pending_def by blast
      with False c m have "ob \<in> set ?view" unfolding s by (intro CollectI exI [of _ i] exI [of _ d]) simp
      with o(2) show ?thesis by blast
    qed
  qed
  from r d s ids show ?thesis by blast
qed

theorem livreur_view_is_pending_or_assigned_witness:
  "orders_wf (colls demo_store ''orders'')
   \<and> (\<exists>view. get_api_orders demo_memory (JNum 2) demo_store
                 = (Inr (Response 200 (JArr (map JObj view))), demo_store)
        \<and> distinct (map (\<lambda>ob. obj_get ob ''id'') view)
        \<and> (\<exists>ob \<in> set view. obj_get ob ''id'' = JStr ''O1'')
        \<and> (\<exists>ob \<in> set view. obj_get ob ''id'' = JStr ''O2'')
        \<and> \<not> (\<exists>ob \<in> set view. obj_get ob ''id'' = JStr ''O3''))"
proof -
  have u: "getUserById demo_memory (JNum 2) = Some (demo_user 2 ''livreur'')"
    by (simp add: getUserById_def demo_memory_def)
  have r: "obj_get (demo_user 2 ''livreur'') ''role'' = JStr ''livreur''"
    and i: "obj_get (demo_user 2 ''livreur'') ''id'' = JNum 2"
    by (simp_all add: demo_user_def obj_get_def)
  have nf: "faults demo_store = []" by (simp add: demo_store_def)
  have wf: "orders_wf (colls demo_store ''orders'')"
    by (simp add: orders_wf_def demo_store_def demo_order_def is_timestamp_def obj_get_def)
  have o1: "\<exists>d. map_of (colls demo_store ''orders'') ''O1'' = Some d \<and>
       (map_of d ''status'' = Some (JStr ''pending'') \<or> map_of d ''livreurId'' = Some (JNum 2))"
    and o2: "\<exists>d. map_of (colls demo_store ''orders'') ''O2'' = Some d \<and>
       (map_of d ''status'' = Some (JStr ''pending'') \<or> map_of d ''livreurId'' = Some (JNum 2))"
    and o3: "\<not> (\<exists>d. map_of (colls demo_store ''orders'') ''O3'' = Some d \<and>
       (map_of d ''status'' = Some (JStr ''pending'') \<or> map_of d ''livreurId'' = Some (JNum 2)))"
    by (simp_all add: demo_store_def demo_order_def)
  from livreur_view_is_pending_or_assigned [OF u r nf wf]
  obtain view where v: "get_api_orders demo_memory (JNum 2) demo_store
                 = (Inr (Response 200 (JArr (map JObj view))), demo_store)"
    and d: "distinct (map (\<lambda>ob. obj_get ob ''id'') view)"
    and ids: "\<forall>i. (\<exists>ob \<in> set view. obj_get ob ''id'' = JStr i) \<longleftrightarrow>
              (\<exists>d. map_of (colls demo_store ''orders'') i = Some d \<and>
                 (map_of d ''status'' = Some (JStr ''pending'')
                  \<or> map_of d ''livreurId'' = Some (obj_get (demo_user 2 ''livreur'') ''id'')))"
    by (elim exE conjE)
  from ids [rule_format, of "''O1''"] o1 have a: "\<exists>ob \<in> set view. obj_get ob ''id'' = JStr ''O1''"
    unfolding i by (simp only:)
  from ids [rule_format, of "''O2''"] o2 have b: "\<exists>ob \<in> set view. obj_get ob ''id'' = JStr ''O2''"
    unfolding i by (simp only:)
  from ids [rule_format, of "''O3''"] o3 have c: "\<not> (\<exists>ob \<in> set view. obj_get ob ''id'' = JStr ''O3'')"
    unfolding i by blast
  from wf v d a b c show ?thesis by (intro conjI exI [of _ view])
qed

text \<open>
  C1 as stated fails: O2 is pending and assigned to courier 2, and courier 3 is
  served O2, then O1, then O3.
\<close>

theorem livreur_view_counterexample:
  "map_of (colls demo_store ''orders'') ''O2'' = Some (demo_order (JStr ''pending'') (JNum 2) 200)
   \<and> response_ids (fst (get_api_orders demo_memory (JNum 3) demo_store))
       = [JStr ''O2'', JStr ''O1'', JStr ''O3'']"
  by code_simp

section \<open>Sort orders of the list reads\<close>























section \<open>The order collection stays well formed\<close>

text \<open>
  The two writers of orders keep \<open>orders_wf\<close>: \<^verbatim>\<open>createOrder\<close> stores both
  instants as Timestamps, and a status update touches \<^verbatim>\<open>updatedAt\<close> (a Timestamp),
  \<^verbatim>\<open>status\<close> and \<^verbatim>\<open>livreurId\<close> only. An empty collection is well formed.
\<close>

lemma orders_wf_update:
  assumes "orders_wf coll" "is_timestamp (obj_get d ''createdAt'')" "is_timestamp (obj_get d ''updatedAt'')"
  shows "orders_wf (AList.update i d coll)"
proof -
  have "distinct (map fst (AList.update i d coll))"
    using assms(1) by (simp add: orders_wf_def AList.distinct_update)
  moreover have "list_all (\<lambda>(i, d). is_timestamp (obj_get d ''createdAt'') \<and> is_timestamp (obj_get d ''updatedAt''))
      (AList.update i d coll)"
    using assms by (intro list_all_update) (simp_all add: orders_wf_def)
  ultimately show ?thesis by (simp add: orders_wf_def)
qed

lemma createOrder_eq:
  assumes "\<not> next_fault db"
  shows "\<exists>ord. createOrder ins i now db =
           (Inr ord, (advance db)\<lparr>colls := (colls db)(''orders'' :=
              AList.update i
                (AList.update ''updatedAt'' (JTimestamp now) (AList.update ''createdAt'' (JTimestamp now) ord))
                (colls db ''orders''))\<rparr>)"
  using assms
  by (simp add: createOrder_def Let_def bind_def setDoc_eq ret_def del: AList.update.simps)

lemma orders_wf_createOrder:
  assumes "orders_wf (colls db ''orders'')"
  shows "orders_wf (colls (snd (createOrder ins i now db)) ''orders'')"
proof (cases "next_fault db")
  case True
  with assms show ?thesis
    by (simp add: createOrder_def Let_def bind_def setDoc_eq ret_def)
next
  case False
  from createOrder_eq [OF False] obtain ord where
    c: "createOrder ins i now db =
           (Inr ord, (advance db)\<lparr>colls := (colls db)(''orders'' :=
              AList.update i
                (AList.update ''updatedAt'' (JTimestamp now) (AList.update ''createdAt'' (JTimestamp now) ord))
                (colls db ''orders''))\<rparr>)"
    by blast
  let ?d = "AList.update ''updatedAt'' (JTimestamp now) (AList.update ''createdAt'' (JTimestamp now) ord)"
  have "is_timestamp (obj_get ?d ''createdAt'')" "is_timestamp (obj_get ?d ''updatedAt'')"
    by (simp_all add: obj_get_def AList.update_conv' is_timestamp_def)
  with assms have "orders_wf (AList.update i ?d (colls db ''orders''))"
    by (rule orders_wf_update)
  then show ?thesis unfolding c by simp
qed

lemma orders_wf_patch:
  assumes wf: "orders_wf (colls db ''orders'')"
  shows "orders_wf (colls (snd (patch_api_orders_id mem sid i body now now' db)) ''orders'')"
  using patch_colls [of mem sid i body now now' db]
proof
  assume "colls (snd (patch_api_orders_id mem sid i body now now' db)) = colls db"
  with wf show ?thesis by simp
next
  assume "\<exists>user order d.
         getUserById mem sid = Some user
       \<and> (obj_get user ''role'' = JStr ''livreur'' \<or> obj_get user ''role'' = JStr ''owner'')
       \<and> found_order i db = Some order
       \<and> map_of (colls db ''orders'') i = Some d
       \<and> colls (snd (patch_api_orders_id mem sid i body now now' db)) =
            (colls db)(''orders'' := AList.update i
               (AList.merge d (strip_undefined
                  (AList.update ''updatedAt'' (JTimestamp now') (order_updates user order body now))))
               (colls db ''orders''))"
  then obtain user order d where m: "map_of (colls db ''orders'') i = Some d"
    and c: "colls (snd (patch_api_orders_id mem sid i body now now' db)) =
            (colls db)(''orders'' := AList.update i
               (AList.merge d (strip_undefined
                  (AList.update ''updatedAt'' (JTimestamp now') (order_updates user order body now))))
               (colls db ''orders''))"
    by blast
  let ?p = "strip_undefined (AList.update ''updatedAt'' (JTimestamp now') (order_updates user order body now))"
  have "map_of (order_updates user order body now) ''createdAt'' = None"
    by (simp add: order_updates_def Let_def)
  then have p: "map_of ?p ''createdAt'' = None" "map_of ?p ''updatedAt'' = Some (JTimestamp now')"
    by (simp_all add: map_of_strip_undefined AList.update_conv')
  from m have "(i, d) \<in> set (colls db ''orders'')" by (rule map_of_SomeD)
  from wf_doc(1) [OF wf this] p
  have "is_timestamp (obj_get (AList.merge d ?p) ''createdAt'')"
       "is_timestamp (obj_get (AList.merge d ?p) ''updatedAt'')"
    unfolding obj_get_merge by (simp_all add: is_timestamp_def)
  with wf have "orders_wf (AList.update i (AList.merge d ?p) (colls db ''orders''))"
    by (rule orders_wf_update)
  then show ?thesis unfolding c by simp
qed

lemma orders_wf_empty: "orders_wf []"
  by (simp add: orders_wf_def)

end
